theory Spec2Isabelle
  imports Main "HOL-Library.Product_Lexorder" "HOL-Library.Multiset"
begin

section \<open>The prop-bet contest application (app.py)\<close>

text \<open>
  The application keeps five tables (Settings, Prop, Answer, Entry, Pick) in a relational
  store and serves Flask routes over them. The tables are lists of rows in insertion
  order; a request handler is a function from the store (and the request's form and
  session flag) to a response, the flashed messages and the store after the request.

  Integer columns are Python integers: \<open>int\<close>. The \<open>created_at\<close> timestamps are
  read by no handler and are left out. The database is the default one of
  \<open>app.config\<close>, SQLite. Foreign keys are plain integer columns: SQLite does not
  enforce them, and no handler checks them. It does enforce the \<open>unique\<close> constraint
  on \<open>Entry.name\<close>, and an integer it is given must fit 64 bits.
\<close>

subsection \<open>Models\<close>

record Settings =
  game_started :: bool
  submissions_locked :: bool

record Prop =
  p_id :: int
  p_question :: string
  p_note :: "string option"
  p_order :: int
  p_resolved :: bool
  p_correct_answer_id :: "int option"

record Answer =
  a_id :: int
  a_prop_id :: int
  a_text :: string
  a_points :: int
  a_order :: int

record Entry =
  e_id :: int
  e_name :: string

record Pick =
  k_id :: int
  k_entry_id :: int
  k_prop_id :: int
  k_answer_id :: int

record store =
  settings_rows :: "Settings list"
  props :: "Prop list"
  answers :: "Answer list"
  entries :: "Entry list"
  picks :: "Pick list"

text \<open>
  Exceptions a handler can raise: \<open>AttributeError\<close> (an attribute of \<open>None\<close>),
  \<open>ValueError\<close> (\<open>int()\<close> of a string that is no integer literal),
  \<open>IntegrityError\<close> (an insert that breaks a unique constraint) and
  \<open>OverflowError\<close> (an integer outside 64 bits handed to SQLite).
\<close>

datatype error = AttributeError | ValueError | IntegrityError | OverflowError

text \<open>The integers SQLite stores: a Python integer outside this range is refused when
  the row is written.\<close>

definition sqlite_integer :: "int \<Rightarrow> bool" where
  "sqlite_integer n = (- (2 ^ 63) \<le> n \<and> n < 2 ^ 63)"

subsection \<open>Python strings\<close>

text \<open>
  A character of \<open>string\<close> is a code point below 256. \<open>str.strip()\<close> removes the
  characters of \<open>str.isspace\<close>: \<open>\t \n \v \f \r\<close>, the separators 28 to 31, the
  space, and U+0085 and U+00A0. \<open>str.lower()\<close> lowers A to Z and the capital letters
  U+00C0 to U+00DE (but the sign U+00D7); the SQL function \<open>lower\<close> of SQLite lowers
  A to Z only.
\<close>

definition is_space :: "char \<Rightarrow> bool" where
  "is_space c = (let n = (of_char c :: nat) in
     (9 \<le> n \<and> n \<le> 13) \<or> (28 \<le> n \<and> n \<le> 32) \<or> n = 133 \<or> n = 160)"

definition strip :: "string \<Rightarrow> string" where
  "strip s = rev (dropWhile is_space (rev (dropWhile is_space s)))"

definition lower_char :: "char \<Rightarrow> char" where
  "lower_char c = (let n = (of_char c :: nat) in
     if (65 \<le> n \<and> n \<le> 90) \<or> (192 \<le> n \<and> n \<le> 222 \<and> n \<noteq> 215) then char_of (n + 32) else c)"

definition lower :: "string \<Rightarrow> string" where
  "lower s = map lower_char s"

definition sql_lower_char :: "char \<Rightarrow> char" where
  "sql_lower_char c = (let n = (of_char c :: nat) in if 65 \<le> n \<and> n \<le> 90 then char_of (n + 32) else c)"

definition sql_lower :: "string \<Rightarrow> string" where
  "sql_lower s = map sql_lower_char s"

definition is_digit :: "char \<Rightarrow> bool" where
  "is_digit c = (let n = (of_char c :: nat) in 48 \<le> n \<and> n \<le> 57)"

definition digit_val :: "char \<Rightarrow> int" where
  "digit_val c = int (of_char c) - 48"

text \<open>
  The digits of an integer literal, most significant first, with the value read so far:
  a single underscore may stand between two digits.
\<close>

fun int_digits :: "int \<Rightarrow> string \<Rightarrow> int option" where
  "int_digits acc [] = Some acc"
| "int_digits acc [c] = (if is_digit c then Some (10 * acc + digit_val c) else None)"
| "int_digits acc (c # d # cs) =
     (if is_digit c then
        (if d = CHR ''_'' then
           (case cs of [] \<Rightarrow> None
            | e # _ \<Rightarrow> if is_digit e then int_digits (10 * acc + digit_val c) cs else None)
         else int_digits (10 * acc + digit_val c) (d # cs))
      else None)"

text \<open>A literal of more than 4300 digits is refused (the default limit of \<open>int()\<close>).\<close>

definition unsigned_int :: "string \<Rightarrow> int option" where
  "unsigned_int s =
     (if s = [] \<or> length (filter is_digit s) > 4300 then None else int_digits 0 s)"

text \<open>
  \<open>int(s)\<close> of a string: the two whitespace characters above 127 count as spaces; then
  the whitespace of C (\<open>\t \n \v \f \r\<close> and the space, not the separators 28 to 31)
  is skipped at both ends, and what is left is an optional sign and the digits.
\<close>

definition is_c_space :: "char \<Rightarrow> bool" where
  "is_c_space c = (let n = (of_char c :: nat) in (9 \<le> n \<and> n \<le> 13) \<or> n = 32)"

definition ascii_spaces :: "string \<Rightarrow> string" where
  "ascii_spaces s =
     map (\<lambda>c. if (of_char c :: nat) = 133 \<or> (of_char c :: nat) = 160 then CHR '' '' else c) s"

definition c_strip :: "string \<Rightarrow> string" where
  "c_strip s = rev (dropWhile is_c_space (rev (dropWhile is_c_space s)))"

definition py_int :: "string \<Rightarrow> error + int" where
  "py_int s =
     (let t = c_strip (ascii_spaces s);
          r = (case t of
                 [] \<Rightarrow> None
               | c # cs \<Rightarrow>
                   if c = CHR ''-'' then map_option uminus (unsigned_int cs)
                   else if c = CHR ''+'' then unsigned_int cs
                   else unsigned_int t)
      in case r of None \<Rightarrow> Inl ValueError | Some n \<Rightarrow> Inr n)"

text \<open>\<open>str(n)\<close> of an integer, as the f-string \<open>f'prop_{prop.id}'\<close> renders it.\<close>

fun nat_str :: "nat \<Rightarrow> string" where
  "nat_str n = (if n < 10 then [char_of (48 + n)] else nat_str (n div 10) @ [char_of (48 + n mod 10)])"

definition int_str :: "int \<Rightarrow> string" where
  "int_str i = (if i < 0 then CHR ''-'' # nat_str (nat (- i)) else nat_str (nat i))"

subsection \<open>The request form\<close>

text \<open>
  \<open>request.form\<close> is a multi-dictionary: every key has a list of values, empty when the
  key was not sent. \<open>form.get(k)\<close> is the first value or \<open>None\<close>, \<open>form.get(k, '')\<close>
  the first value or the empty string, \<open>form.getlist(k)\<close> the whole list.
\<close>

type_synonym form = "string \<Rightarrow> string list"

definition form_get :: "form \<Rightarrow> string \<Rightarrow> string option" where
  "form_get f k = (case f k of [] \<Rightarrow> None | v # _ \<Rightarrow> Some v)"

definition form_get_default :: "form \<Rightarrow> string \<Rightarrow> string" where
  "form_get_default f k = (case f k of [] \<Rightarrow> [] | v # _ \<Rightarrow> v)"

definition getlist :: "form \<Rightarrow> string \<Rightarrow> string list" where
  "getlist f k = f k"

subsection \<open>Queries\<close>

text \<open>
  A primary key of a new row is one more than the largest key in its table, and 1 in an
  empty table, as SQLite assigns the rowid of an \<open>INTEGER PRIMARY KEY\<close> column
  (while the keys stay below 2^63).
\<close>

definition next_id :: "int list \<Rightarrow> int" where
  "next_id ids = (if ids = [] then 1 else Max (set ids) + 1)"

text \<open>\<open>Model.query.get(id)\<close> and the relationships \<open>pick.prop\<close>, \<open>pick.answer\<close>, \<open>entry.picks\<close>.\<close>

definition get_prop :: "store \<Rightarrow> int \<Rightarrow> Prop option" where
  "get_prop st i = find (\<lambda>p. p_id p = i) (props st)"

definition get_answer :: "store \<Rightarrow> int \<Rightarrow> Answer option" where
  "get_answer st i = find (\<lambda>a. a_id a = i) (answers st)"

definition get_entry :: "store \<Rightarrow> int \<Rightarrow> Entry option" where
  "get_entry st i = find (\<lambda>e. e_id e = i) (entries st)"

definition pick_prop :: "store \<Rightarrow> Pick \<Rightarrow> Prop option" where
  "pick_prop st k = get_prop st (k_prop_id k)"

definition pick_answer :: "store \<Rightarrow> Pick \<Rightarrow> Answer option" where
  "pick_answer st k = get_answer st (k_answer_id k)"

definition entry_picks :: "store \<Rightarrow> Entry \<Rightarrow> Pick list" where
  "entry_picks st e = filter (\<lambda>k. k_entry_id k = e_id e) (picks st)"

definition prop_answers :: "store \<Rightarrow> Prop \<Rightarrow> Answer list" where
  "prop_answers st p = filter (\<lambda>a. a_prop_id a = p_id p) (answers st)"

subsection \<open>Helpers\<close>

definition default_settings :: Settings where
  "default_settings = \<lparr>game_started = False, submissions_locked = False\<rparr>"

text \<open>\<open>get_settings\<close> returns the first Settings row, inserting (and committing) one first
  when the table is empty.\<close>

definition get_settings :: "store \<Rightarrow> Settings \<times> store" where
  "get_settings st =
     (case settings_rows st of
        [] \<Rightarrow> (default_settings, st\<lparr>settings_rows := [default_settings]\<rparr>)
      | s # _ \<Rightarrow> (s, st))"

text \<open>The loop of \<open>calculate_score\<close>: \<open>pick.prop.resolved\<close> raises when \<open>pick.prop\<close> is
  \<open>None\<close>, and \<open>pick.answer.points\<close> when a correct pick's \<open>pick.answer\<close> is.\<close>

fun score_loop :: "store \<Rightarrow> Pick list \<Rightarrow> int \<Rightarrow> error + int" where
  "score_loop st [] tot = Inr tot"
| "score_loop st (k # ks) tot =
     (case pick_prop st k of
        None \<Rightarrow> Inl AttributeError
      | Some p \<Rightarrow>
          if p_resolved p \<and> p_correct_answer_id p = Some (k_answer_id k) then
            (case pick_answer st k of
               None \<Rightarrow> Inl AttributeError
             | Some a \<Rightarrow> score_loop st ks (tot + a_points a))
          else score_loop st ks tot)"

definition calculate_score :: "store \<Rightarrow> Entry \<Rightarrow> error + int" where
  "calculate_score st e = score_loop st (entry_picks st e) 0"

datatype pick_status = Pending | Correct | Incorrect

definition get_pick_status :: "store \<Rightarrow> Pick \<Rightarrow> error + pick_status" where
  "get_pick_status st k =
     (case pick_prop st k of
        None \<Rightarrow> Inl AttributeError
      | Some p \<Rightarrow>
          if \<not> p_resolved p then Inr Pending
          else if p_correct_answer_id p = Some (k_answer_id k) then Inr Correct
          else Inr Incorrect)"

subsection \<open>Requests and responses\<close>

datatype http_method = GET | POST

record standing =
  s_name :: string
  s_score :: int
  s_id :: int

text \<open>
  What a handler returns: a redirect to an endpoint (\<open>submit_success\<close> with its entry
  id), a rendered template, one of the two JSON bodies of \<open>/api/standings\<close> (the error
  body with its status, or the standings with the resolved and total counts), the 404 of
  \<open>get_or_404\<close>, or an exception that escapes the handler. The transaction of a
  request that raises or aborts is rolled back: its store is the one before the request.
\<close>

datatype response =
    Redirect string
  | Redirect_submit_success int
  | Render string
  | Json_error string nat
  | Json_standings "standing list" nat nat
  | Abort nat
  | Raise error

type_synonym flash = "string \<times> string"

record result =
  resp :: response
  flashes :: "flash list"
  db :: store

definition admin_required :: "bool \<Rightarrow> (store \<Rightarrow> result) \<Rightarrow> store \<Rightarrow> result" where
  "admin_required is_admin f st =
     (if \<not> is_admin then \<lparr>resp = Redirect ''admin_login'', flashes = [], db = st\<rparr> else f st)"

text \<open>\<open>Prop.query.order_by(Prop.order, Prop.id).all()\<close>\<close>

definition sorted_props :: "store \<Rightarrow> Prop list" where
  "sorted_props st = sort_key (\<lambda>p. (p_order p, p_id p)) (props st)"

subsection \<open>Public routes\<close>

text \<open>The rows a request has added to a table, which the commit writes.\<close>

definition new_rows :: "'a list \<Rightarrow> 'a list \<Rightarrow> 'a list" where
  "new_rows old tbl = drop (length old) tbl"

text \<open>The loop of \<open>prop_sheet\<close> that saves the picks; \<open>tbl\<close> is the Pick table, to which
  the new rows are added.\<close>

fun save_picks :: "form \<Rightarrow> int \<Rightarrow> Prop list \<Rightarrow> Pick list \<Rightarrow> error + Pick list" where
  "save_picks f eid [] tbl = Inr tbl"
| "save_picks f eid (p # ps) tbl =
     (case form_get f (''prop_'' @ int_str (p_id p)) of
        None \<Rightarrow> save_picks f eid ps tbl
      | Some answer_id \<Rightarrow>
          if answer_id = [] then save_picks f eid ps tbl
          else
            (case py_int answer_id of
               Inl err \<Rightarrow> Inl err
             | Inr n \<Rightarrow>
                 save_picks f eid ps
                   (tbl @ [\<lparr>k_id = next_id (map k_id tbl), k_entry_id = eid,
                            k_prop_id = p_id p, k_answer_id = n\<rparr>])))"

text \<open>
  The name check compares SQLite's \<open>lower\<close> of the stored names with Python's
  \<open>lower\<close> of the new one. The flush of the new Entry raises when a stored name equals
  the new one (the unique constraint), and the commit when a Pick's answer id does not fit.
\<close>

definition prop_sheet :: "http_method \<Rightarrow> form \<Rightarrow> store \<Rightarrow> result" where
  "prop_sheet method f st0 =
     (let (settings, st) = get_settings st0 in
      if submissions_locked settings then
        \<lparr>resp = Redirect ''index'', flashes = [(''Submissions are now closed!'', ''error'')], db = st\<rparr>
      else
        let ps = sorted_props st in
        if method = POST then
          let name = strip (form_get_default f ''name'') in
          if name = [] then
            \<lparr>resp = Render ''prop_sheet.html'', flashes = [(''Please enter your name!'', ''error'')],
             db = st\<rparr>
          else if find (\<lambda>e. sql_lower (e_name e) = lower name) (entries st) \<noteq> None then
            \<lparr>resp = Render ''prop_sheet.html'',
             flashes = [(''An entry for '' @ [CHR 0x22] @ name @ [CHR 0x22] @
                         '' already exists! Choose a different name or contact Seth.'', ''error'')],
             db = st\<rparr>
          else if find (\<lambda>e. e_name e = name) (entries st) \<noteq> None then
            \<lparr>resp = Raise IntegrityError, flashes = [], db = st\<rparr>
          else
            let entry = \<lparr>e_id = next_id (map e_id (entries st)), e_name = name\<rparr> in
            (case save_picks f (e_id entry) ps (picks st) of
               Inl err \<Rightarrow> \<lparr>resp = Raise err, flashes = [], db = st\<rparr>
             | Inr tbl \<Rightarrow>
                 if list_all (\<lambda>k. sqlite_integer (k_answer_id k)) (new_rows (picks st) tbl) then
                   \<lparr>resp = Redirect_submit_success (e_id entry),
                    flashes = [(''Thanks '' @ name @ ''! Your picks have been submitted!'', ''success'')],
                    db = st\<lparr>entries := entries st @ [entry], picks := tbl\<rparr>\<rparr>
                 else \<lparr>resp = Raise OverflowError, flashes = [], db = st\<rparr>)
        else \<lparr>resp = Render ''prop_sheet.html'', flashes = [], db = st\<rparr>)"

subsection \<open>Admin routes\<close>

text \<open>\<open>settings\<close> is the first Settings row; the commit writes it back.\<close>

definition put_settings :: "Settings \<Rightarrow> store \<Rightarrow> store" where
  "put_settings s st = st\<lparr>settings_rows := s # tl (settings_rows st)\<rparr>"

definition admin_settings :: "bool \<Rightarrow> form \<Rightarrow> store \<Rightarrow> result" where
  "admin_settings is_admin f =
     admin_required is_admin (\<lambda>st0.
       let (settings, st) = get_settings st0;
           action = form_get f ''action''
       in
         if action = Some ''start_game'' then
           \<lparr>resp = Redirect ''admin_dashboard'',
            flashes = [(''Game started! Picks are now visible to everyone.'', ''success'')],
            db = put_settings (settings\<lparr>game_started := True, submissions_locked := True\<rparr>) st\<rparr>
         else if action = Some ''stop_game'' then
           \<lparr>resp = Redirect ''admin_dashboard'',
            flashes = [(''Game stopped. Picks are hidden again.'', ''success'')],
            db = put_settings (settings\<lparr>game_started := False\<rparr>) st\<rparr>
         else if action = Some ''lock_submissions'' then
           \<lparr>resp = Redirect ''admin_dashboard'', flashes = [(''Submissions locked!'', ''success'')],
            db = put_settings (settings\<lparr>submissions_locked := True\<rparr>) st\<rparr>
         else if action = Some ''unlock_submissions'' then
           \<lparr>resp = Redirect ''admin_dashboard'', flashes = [(''Submissions unlocked!'', ''success'')],
            db = put_settings (settings\<lparr>submissions_locked := False\<rparr>) st\<rparr>
         else \<lparr>resp = Redirect ''admin_dashboard'', flashes = [], db = st\<rparr>)"

text \<open>\<open>db.func.max(column)\<close> over a table: \<open>None\<close> on an empty one.\<close>

definition sql_max :: "int list \<Rightarrow> int option" where
  "sql_max xs = (if xs = [] then None else Some (Max (set xs)))"

text \<open>Python's \<open>x or 0\<close> on an optional integer: 0 when x is \<open>None\<close> or 0.\<close>

definition or_zero :: "int option \<Rightarrow> int" where
  "or_zero x = (case x of None \<Rightarrow> 0 | Some n \<Rightarrow> if n = 0 then 0 else n)"

text \<open>
  The loop over \<open>enumerate(zip(answer_texts, answer_points))\<close> of the add and edit
  forms; \<open>tbl\<close> is the Answer table, to which the new rows are added. The points of a
  row are \<open>int(points) if points else 1\<close>.
\<close>

definition form_points :: "string \<Rightarrow> error + int" where
  "form_points points = (if points \<noteq> [] then py_int points else Inr 1)"

fun add_answers :: "int \<Rightarrow> (nat \<times> string \<times> string) list \<Rightarrow> Answer list \<Rightarrow> error + Answer list" where
  "add_answers pid [] tbl = Inr tbl"
| "add_answers pid ((i, text, points) # rest) tbl =
     (if strip text \<noteq> [] then
        (case form_points points of
           Inl err \<Rightarrow> Inl err
         | Inr n \<Rightarrow>
             add_answers pid rest
               (tbl @ [\<lparr>a_id = next_id (map a_id tbl), a_prop_id = pid, a_text = strip text,
                        a_points = n, a_order = int i\<rparr>]))
      else add_answers pid rest tbl)"

definition form_answers :: "form \<Rightarrow> (nat \<times> string \<times> string) list" where
  "form_answers f = enumerate 0 (zip (getlist f ''answer_text[]'') (getlist f ''answer_points[]''))"

definition form_note :: "form \<Rightarrow> string option" where
  "form_note f = (let n = strip (form_get_default f ''note'') in if n = [] then None else Some n)"

text \<open>
  The flush of the new Prop raises when its order does not fit; the loop over the answers
  comes after it, and the commit raises when the points of a new Answer do not fit.
\<close>

definition admin_add_prop :: "bool \<Rightarrow> http_method \<Rightarrow> form \<Rightarrow> store \<Rightarrow> result" where
  "admin_add_prop is_admin method f =
     admin_required is_admin (\<lambda>st.
       if method = POST then
         let question = strip (form_get_default f ''question'');
             note = form_note f
         in
           if question = [] then
             \<lparr>resp = Redirect ''admin_add_prop'', flashes = [(''Question is required!'', ''error'')],
              db = st\<rparr>
           else
             let max_order = or_zero (sql_max (map p_order (props st)));
                 prop = \<lparr>p_id = next_id (map p_id (props st)), p_question = question, p_note = note,
                         p_order = max_order + 1, p_resolved = False, p_correct_answer_id = None\<rparr>
             in
               if \<not> sqlite_integer (p_order prop) then
                 \<lparr>resp = Raise OverflowError, flashes = [], db = st\<rparr>
               else
                 (case add_answers (p_id prop) (form_answers f) (answers st) of
                    Inl err \<Rightarrow> \<lparr>resp = Raise err, flashes = [], db = st\<rparr>
                  | Inr tbl \<Rightarrow>
                      if list_all (\<lambda>a. sqlite_integer (a_points a)) (new_rows (answers st) tbl) then
                        \<lparr>resp = Redirect ''admin_props'', flashes = [(''Prop added!'', ''success'')],
                         db = st\<lparr>props := props st @ [prop], answers := tbl\<rparr>\<rparr>
                      else \<lparr>resp = Raise OverflowError, flashes = [], db = st\<rparr>)
       else \<lparr>resp = Render ''admin_add_prop.html'', flashes = [], db = st\<rparr>)"

text \<open>An update of the Prop row with primary key \<open>pid\<close>.\<close>

definition update_prop :: "int \<Rightarrow> (Prop \<Rightarrow> Prop) \<Rightarrow> Prop list \<Rightarrow> Prop list" where
  "update_prop pid g ps = map (\<lambda>p. if p_id p = pid then g p else p) ps"

definition admin_edit_prop :: "bool \<Rightarrow> int \<Rightarrow> http_method \<Rightarrow> form \<Rightarrow> store \<Rightarrow> result" where
  "admin_edit_prop is_admin prop_id method f =
     admin_required is_admin (\<lambda>st.
       case get_prop st prop_id of
         None \<Rightarrow> \<lparr>resp = Abort 404, flashes = [], db = st\<rparr>
       | Some prop \<Rightarrow>
           if method = POST then
             let question = strip (form_get_default f ''question'');
                 note = form_note f;
                 kept = filter (\<lambda>a. a_prop_id a \<noteq> p_id prop) (answers st)
             in
               (case add_answers (p_id prop) (form_answers f) kept of
                  Inl err \<Rightarrow> \<lparr>resp = Raise err, flashes = [], db = st\<rparr>
                | Inr tbl \<Rightarrow>
                    if list_all (\<lambda>a. sqlite_integer (a_points a)) (new_rows kept tbl) then
                      \<lparr>resp = Redirect ''admin_props'', flashes = [(''Prop updated!'', ''success'')],
                       db = st\<lparr>props := update_prop (p_id prop)
                                            (\<lambda>p. p\<lparr>p_question := question, p_note := note\<rparr>) (props st),
                               answers := tbl\<rparr>\<rparr>
                    else \<lparr>resp = Raise OverflowError, flashes = [], db = st\<rparr>)
           else \<lparr>resp = Render ''admin_edit_prop.html'', flashes = [], db = st\<rparr>)"

definition admin_delete_prop :: "bool \<Rightarrow> int \<Rightarrow> store \<Rightarrow> result" where
  "admin_delete_prop is_admin prop_id =
     admin_required is_admin (\<lambda>st.
       case get_prop st prop_id of
         None \<Rightarrow> \<lparr>resp = Abort 404, flashes = [], db = st\<rparr>
       | Some prop \<Rightarrow>
           \<lparr>resp = Redirect ''admin_props'', flashes = [(''Prop deleted!'', ''success'')],
            db = st\<lparr>picks := filter (\<lambda>k. k_prop_id k \<noteq> p_id prop) (picks st),
                    answers := filter (\<lambda>a. a_prop_id a \<noteq> p_id prop) (answers st),
                    props := filter (\<lambda>p. p_id p \<noteq> p_id prop) (props st)\<rparr>\<rparr>)"

text \<open>\<open>next((i for i, p in enumerate(props) if p.id == prop_id), None)\<close>\<close>

definition current_index :: "Prop list \<Rightarrow> int \<Rightarrow> nat option" where
  "current_index ps prop_id = map_option fst (find (\<lambda>(i, p). p_id p = prop_id) (enumerate 0 ps))"

text \<open>
  The two assignments of a move: \<open>prop\<close> takes the order of \<open>other_prop\<close> and
  \<open>other_prop\<close> the order of \<open>prop\<close>; when the two are then equal, \<open>prop\<close>'s order
  moves by \<open>delta\<close> (-1 for up, +1 for down). The commit updates both rows, and raises
  when an order it writes does not fit.
\<close>

definition moved_order :: "Prop \<Rightarrow> Prop \<Rightarrow> int \<Rightarrow> int" where
  "moved_order prop other_prop delta =
     (let prop_order = p_order other_prop;
          other_order = p_order prop
      in if prop_order = other_order then prop_order + delta else prop_order)"

definition swap_orders :: "Prop \<Rightarrow> Prop \<Rightarrow> int \<Rightarrow> Prop list \<Rightarrow> Prop list" where
  "swap_orders prop other_prop delta ps =
     update_prop (p_id prop) (\<lambda>p. p\<lparr>p_order := moved_order prop other_prop delta\<rparr>)
       (update_prop (p_id other_prop) (\<lambda>p. p\<lparr>p_order := p_order prop\<rparr>) ps)"

definition commit_move :: "Prop \<Rightarrow> Prop \<Rightarrow> int \<Rightarrow> store \<Rightarrow> result" where
  "commit_move prop other_prop delta st =
     (if sqlite_integer (moved_order prop other_prop delta) \<and> sqlite_integer (p_order prop) then
        \<lparr>resp = Redirect ''admin_props'', flashes = [],
         db = st\<lparr>props := swap_orders prop other_prop delta (props st)\<rparr>\<rparr>
      else \<lparr>resp = Raise OverflowError, flashes = [], db = st\<rparr>)"

definition admin_move_prop :: "bool \<Rightarrow> int \<Rightarrow> string \<Rightarrow> store \<Rightarrow> result" where
  "admin_move_prop is_admin prop_id direction =
     admin_required is_admin (\<lambda>st.
       case get_prop st prop_id of
         None \<Rightarrow> \<lparr>resp = Abort 404, flashes = [], db = st\<rparr>
       | Some prop \<Rightarrow>
           let ps = sorted_props st in
           (case current_index ps prop_id of
              None \<Rightarrow> \<lparr>resp = Redirect ''admin_props'', flashes = [(''Prop not found!'', ''error'')],
                        db = st\<rparr>
            | Some i \<Rightarrow>
                if direction = ''up'' \<and> i > 0 then commit_move prop (ps ! (i - 1)) (- 1) st
                else if direction = ''down'' \<and> int i < int (length ps) - 1 then
                  commit_move prop (ps ! (i + 1)) 1 st
                else \<lparr>resp = Redirect ''admin_props'', flashes = [], db = st\<rparr>))"

definition admin_resolve_prop :: "bool \<Rightarrow> int \<Rightarrow> form \<Rightarrow> store \<Rightarrow> result" where
  "admin_resolve_prop is_admin prop_id f =
     admin_required is_admin (\<lambda>st.
       case get_prop st prop_id of
         None \<Rightarrow> \<lparr>resp = Abort 404, flashes = [], db = st\<rparr>
       | Some prop \<Rightarrow>
           let answer_id = form_get f ''answer_id'' in
           if answer_id \<noteq> None \<and> answer_id \<noteq> Some [] then
             (case py_int (the answer_id) of
                Inl err \<Rightarrow> \<lparr>resp = Raise err, flashes = [], db = st\<rparr>
              | Inr n \<Rightarrow>
                  if sqlite_integer n then
                    \<lparr>resp = Redirect ''admin_answers'',
                     flashes = [(''Marked correct answer for: '' @ take 50 (p_question prop) @ ''...'',
                                 ''success'')],
                     db = st\<lparr>props := update_prop (p_id prop)
                                          (\<lambda>p. p\<lparr>p_correct_answer_id := Some n, p_resolved := True\<rparr>)
                                          (props st)\<rparr>\<rparr>
                  else \<lparr>resp = Raise OverflowError, flashes = [], db = st\<rparr>)
           else
             \<lparr>resp = Redirect ''admin_answers'',
              flashes = [(''Unresolved: '' @ take 50 (p_question prop) @ ''...'', ''success'')],
              db = st\<lparr>props := update_prop (p_id prop)
                                   (\<lambda>p. p\<lparr>p_correct_answer_id := None, p_resolved := False\<rparr>)
                                   (props st)\<rparr>\<rparr>)"

subsection \<open>API routes\<close>

text \<open>The loop of \<open>api_standings\<close> over \<open>Entry.query.all()\<close>.\<close>

fun standings_loop :: "store \<Rightarrow> Entry list \<Rightarrow> error + standing list" where
  "standings_loop st [] = Inr []"
| "standings_loop st (e # es) =
     (case calculate_score st e of
        Inl err \<Rightarrow> Inl err
      | Inr score \<Rightarrow>
          (case standings_loop st es of
             Inl err \<Rightarrow> Inl err
           | Inr rows \<Rightarrow> Inr (\<lparr>s_name = e_name e, s_score = score, s_id = e_id e\<rparr> # rows)))"

text \<open>\<open>list.sort(key=lambda x: x['score'], reverse=True)\<close>: descending and stable.\<close>

definition sort_by_score_desc :: "standing list \<Rightarrow> standing list" where
  "sort_by_score_desc rows = sort_key (\<lambda>r. - s_score r) rows"

definition api_standings :: "store \<Rightarrow> result" where
  "api_standings st0 =
     (let (settings, st) = get_settings st0 in
      if \<not> game_started settings then
        \<lparr>resp = Json_error ''Game not started'' 403, flashes = [], db = st\<rparr>
      else
        (case standings_loop st (entries st) of
           Inl err \<Rightarrow> \<lparr>resp = Raise err, flashes = [], db = st\<rparr>
         | Inr rows \<Rightarrow>
             \<lparr>resp = Json_standings (sort_by_score_desc rows)
                       (length (filter p_resolved (props st))) (length (props st)),
              flashes = [], db = st\<rparr>))"

section \<open>Notions the properties are stated with\<close>

text \<open>A pick counts when its Prop is resolved and its answer is the Prop's correct
  answer; it is then worth the points of its Answer row.\<close>

definition pick_correct :: "store \<Rightarrow> Pick \<Rightarrow> bool" where
  "pick_correct st k =
     (case pick_prop st k of
        None \<Rightarrow> False
      | Some p \<Rightarrow> p_resolved p \<and> p_correct_answer_id p = Some (k_answer_id k))"

definition pick_points :: "store \<Rightarrow> Pick \<Rightarrow> int" where
  "pick_points st k = (case pick_answer st k of None \<Rightarrow> 0 | Some a \<Rightarrow> a_points a)"

subsection \<open>Concrete stores\<close>

text \<open>The empty database, and a form given by its keys and their values.\<close>

definition empty_store :: store where
  "empty_store = \<lparr>settings_rows = [], props = [], answers = [], entries = [], picks = []\<rparr>"

definition form_of :: "(string \<times> string list) list \<Rightarrow> form" where
  "form_of kvs k = (case map_of kvs k of None \<Rightarrow> [] | Some vs \<Rightarrow> vs)"

text \<open>
  An admin adds a Prop whose first answer is worth -5 points, Ann submits a sheet that
  picks it, and the admin resolves the Prop to that answer.
\<close>

definition negative_points_store :: store where
  "negative_points_store =
     (let s1 = db (admin_add_prop True POST
                     (form_of [(''question'', [''Who wins?'']),
                               (''answer_text[]'', [''Home'', ''Away'']),
                               (''answer_points[]'', [''-5'', ''2''])]) empty_store);
          s2 = db (prop_sheet POST (form_of [(''name'', [''Ann'']), (''prop_1'', [''1''])]) s1)
      in db (admin_resolve_prop True 1 (form_of [(''answer_id'', [''1''])]) s2))"

text \<open>Three Props (two resolved), their Answers, and the sheets of Ann and Bob.\<close>

definition scored_store :: store where
  "scored_store =
     \<lparr>settings_rows = [\<lparr>game_started = True, submissions_locked = True\<rparr>],
      props = [\<lparr>p_id = 1, p_question = ''Who wins?'', p_note = None, p_order = 1,
                p_resolved = True, p_correct_answer_id = Some 1\<rparr>,
               \<lparr>p_id = 2, p_question = ''Coin toss?'', p_note = None, p_order = 2,
                p_resolved = True, p_correct_answer_id = Some 4\<rparr>,
               \<lparr>p_id = 3, p_question = ''First score?'', p_note = None, p_order = 3,
                p_resolved = False, p_correct_answer_id = None\<rparr>],
      answers = [\<lparr>a_id = 1, a_prop_id = 1, a_text = ''Home'', a_points = 3, a_order = 0\<rparr>,
                 \<lparr>a_id = 2, a_prop_id = 1, a_text = ''Away'', a_points = 2, a_order = 1\<rparr>,
                 \<lparr>a_id = 3, a_prop_id = 2, a_text = ''Heads'', a_points = 1, a_order = 0\<rparr>,
                 \<lparr>a_id = 4, a_prop_id = 2, a_text = ''Tails'', a_points = 1, a_order = 1\<rparr>,
                 \<lparr>a_id = 5, a_prop_id = 3, a_text = ''Touchdown'', a_points = 4, a_order = 0\<rparr>],
      entries = [\<lparr>e_id = 1, e_name = ''Ann''\<rparr>, \<lparr>e_id = 2, e_name = ''Bob''\<rparr>],
      picks = [\<lparr>k_id = 1, k_entry_id = 1, k_prop_id = 1, k_answer_id = 1\<rparr>,
               \<lparr>k_id = 2, k_entry_id = 1, k_prop_id = 2, k_answer_id = 3\<rparr>,
               \<lparr>k_id = 3, k_entry_id = 1, k_prop_id = 3, k_answer_id = 5\<rparr>,
               \<lparr>k_id = 4, k_entry_id = 2, k_prop_id = 1, k_answer_id = 2\<rparr>,
               \<lparr>k_id = 5, k_entry_id = 2, k_prop_id = 2, k_answer_id = 4\<rparr>]\<rparr>"

text \<open>The same store with one more Pick of Bob's, on a Prop with no row.\<close>

definition dangling_store :: store where
  "dangling_store = scored_store\<lparr>picks := picks scored_store @
      [\<lparr>k_id = 6, k_entry_id = 2, k_prop_id = 9, k_answer_id = 1\<rparr>]\<rparr>"

text \<open>The Settings row a request reads: what \<open>get_settings\<close> returns.\<close>

definition current_settings :: "store \<Rightarrow> Settings" where
  "current_settings st = fst (get_settings st)"

text \<open>The forms of the settings actions, and a store whose submissions are locked.\<close>

definition start_form :: form where "start_form = form_of [(''action'', [''start_game''])]"

definition stop_form :: form where "stop_form = form_of [(''action'', [''stop_game''])]"

definition locked_store :: store where
  "locked_store = empty_store\<lparr>settings_rows := [\<lparr>game_started = False, submissions_locked = True\<rparr>]\<rparr>"

text \<open>A well-formed sheet, from a name not yet taken.\<close>

definition sheet_form :: form where
  "sheet_form = form_of [(''name'', [''Cleo'']), (''prop_1'', [''1''])]"

text \<open>The form of a new Prop with two answers, the second with its points left empty.\<close>

definition add_form :: form where
  "add_form = form_of [(''question'', [''Longest drive?'']),
                       (''answer_text[]'', [''Over'', ''Under'']),
                       (''answer_points[]'', [''2'', ''''])]"

text \<open>A resolve request that sends no answer id (or an empty one) unresolves the Prop.\<close>

definition unresolve_form :: "form \<Rightarrow> bool" where
  "unresolve_form g = (form_get g ''answer_id'' = None \<or> form_get g ''answer_id'' = Some [])"

text \<open>The Prop with this id has a row and is not resolved.\<close>

definition is_unresolved :: "store \<Rightarrow> int \<Rightarrow> bool" where
  "is_unresolved st i = (case get_prop st i of None \<Rightarrow> False | Some p \<Rightarrow> \<not> p_resolved p)"

text \<open>The forms that resolve a Prop to the answer with id 1, and that unresolve it.\<close>

definition resolve_to_1 :: form where
  "resolve_to_1 = form_of [(''answer_id'', [''1''])]"

definition no_answer :: form where
  "no_answer = form_of []"

text \<open>The record \<open>/api/standings\<close> lists for an entry whose score is computed, and
  whether the score of every entry is.\<close>

definition standing_of :: "store \<Rightarrow> Entry \<Rightarrow> standing" where
  "standing_of st e =
     \<lparr>s_name = e_name e,
      s_score = (case calculate_score st e of Inl _ \<Rightarrow> 0 | Inr n \<Rightarrow> n),
      s_id = e_id e\<rparr>"

definition all_scored :: "store \<Rightarrow> bool" where
  "all_scored st = list_all (\<lambda>e. case calculate_score st e of Inl _ \<Rightarrow> False | Inr _ \<Rightarrow> True) (entries st)"

text \<open>
  An admin adds a Prop with two answers, Ann picks the second, the admin resolves the Prop
  to the second, then edits the Prop keeping one answer only (the second Answer row is
  gone), and starts the game.
\<close>

definition edited_store :: store where
  "edited_store =
     (let s1 = db (admin_add_prop True POST
                     (form_of [(''question'', [''Who wins?'']),
                               (''answer_text[]'', [''Home'', ''Away'']),
                               (''answer_points[]'', [''1'', ''1''])]) empty_store);
          s2 = db (prop_sheet POST (form_of [(''name'', [''Ann'']), (''prop_1'', [''2''])]) s1);
          s3 = db (admin_resolve_prop True 1 (form_of [(''answer_id'', [''2''])]) s2);
          s4 = db (admin_edit_prop True 1 POST
                     (form_of [(''question'', [''Who wins?'']),
                               (''answer_text[]'', [''Home'']),
                               (''answer_points[]'', [''1''])]) s3)
      in db (admin_settings True start_form s4))"

text \<open>The Prop's \<open>correct_answer_id\<close> references an Answer row of that same Prop.\<close>

definition correct_answer_own :: "store \<Rightarrow> Prop \<Rightarrow> bool" where
  "correct_answer_own st p =
     (case p_correct_answer_id p of
        None \<Rightarrow> False
      | Some i \<Rightarrow> (case get_answer st i of None \<Rightarrow> False | Some a \<Rightarrow> a_prop_id a = p_id p))"

text \<open>The rows of the answers form that have a text: the Answers an add or edit creates.\<close>

definition form_rows :: "form \<Rightarrow> (nat \<times> string \<times> string) list" where
  "form_rows f = filter (\<lambda>(i, tx, points). strip tx \<noteq> []) (form_answers f)"

text \<open>
  An admin adds a Prop with two answers and resolves it to the first; the edit form then
  sends the same two answers again.
\<close>

definition two_answers_form :: form where
  "two_answers_form = form_of [(''question'', [''Who wins?'']),
                               (''answer_text[]'', [''Home'', ''Away'']),
                               (''answer_points[]'', [''1'', ''1''])]"

definition resolved_store :: store where
  "resolved_store =
     db (admin_resolve_prop True 1 resolve_to_1
           (db (admin_add_prop True POST two_answers_form empty_store)))"

text \<open>The invariant of the Props: a resolved Prop's \<open>correct_answer_id\<close> references
  one of its own Answers.\<close>

definition resolved_inv :: "store \<Rightarrow> bool" where
  "resolved_inv st = list_all (\<lambda>p. p_resolved p \<longrightarrow> correct_answer_own st p) (props st)"

text \<open>
  The admin requests that add, edit and resolve Props (POST requests of a logged-in
  admin), and the store after one of them.
\<close>

datatype admin_op = Add_prop form | Edit_prop int form | Resolve_prop int form

fun apply_op :: "admin_op \<Rightarrow> store \<Rightarrow> store" where
  "apply_op (Add_prop f) st = db (admin_add_prop True POST f st)"
| "apply_op (Edit_prop i f) st = db (admin_edit_prop True i POST f st)"
| "apply_op (Resolve_prop i f) st = db (admin_resolve_prop True i f st)"

text \<open>
  The requests under which the invariant is kept: a resolve request names an Answer of
  the Prop it resolves (or unresolves it), and an edit request is on a Prop that is not
  resolved.
\<close>

fun op_allowed :: "store \<Rightarrow> admin_op \<Rightarrow> bool" where
  "op_allowed st (Add_prop f) = True"
| "op_allowed st (Edit_prop i f) =
     (case get_prop st i of None \<Rightarrow> True | Some p \<Rightarrow> \<not> p_resolved p)"
| "op_allowed st (Resolve_prop i f) =
     (case get_prop st i of
        None \<Rightarrow> True
      | Some p \<Rightarrow>
          (case form_get f ''answer_id'' of
             None \<Rightarrow> True
           | Some v \<Rightarrow>
               v = [] \<or>
               (case py_int v of
                  Inl _ \<Rightarrow> True
                | Inr n \<Rightarrow>
                    (case get_answer st n of None \<Rightarrow> False | Some a \<Rightarrow> a_prop_id a = p_id p))))"

fun run_ops :: "admin_op list \<Rightarrow> store \<Rightarrow> store option" where
  "run_ops [] st = Some st"
| "run_ops (x # xs) st = (if op_allowed st x then run_ops xs (apply_op x st) else None)"

text \<open>
  A run of allowed requests: add a Prop, resolve it to its first answer, unresolve it, add
  a second Prop, edit the second (unresolved) Prop, resolve the first Prop to its first
  answer again and the second Prop to its own first answer (id 3 after the edit).
\<close>

definition allowed_ops :: "admin_op list" where
  "allowed_ops = [Add_prop two_answers_form, Resolve_prop 1 resolve_to_1, Resolve_prop 1 no_answer,
                  Add_prop add_form, Edit_prop 2 two_answers_form, Resolve_prop 1 resolve_to_1,
                  Resolve_prop 2 (form_of [(''answer_id'', [''3''])])]"

text \<open>An admin adds a Prop with the answers 1 and 2 and resolves it with answer id 7.\<close>

definition unchecked_store :: store where
  "unchecked_store =
     db (admin_resolve_prop True 1 (form_of [(''answer_id'', [''7''])])
           (db (admin_add_prop True POST two_answers_form empty_store)))"

text \<open>
  Five Props; the Props 2, 3 and 4 have the same order value, so that the listing sorts
  them by id.
\<close>

definition tied_prop :: "int \<Rightarrow> int \<Rightarrow> Prop" where
  "tied_prop i ord = \<lparr>p_id = i, p_question = ''Q'', p_note = None, p_order = ord,
                       p_resolved = False, p_correct_answer_id = None\<rparr>"

definition tied_store :: store where
  "tied_store = empty_store\<lparr>props := [tied_prop 1 0, tied_prop 2 1, tied_prop 3 1,
                                        tied_prop 4 1, tied_prop 5 5]\<rparr>"

(*THEOREMS*)

section \<open>Scoring\<close>

lemma score_loop_sum:
  assumes "\<forall>k\<in>set ks. pick_prop st k \<noteq> None"
    and "\<forall>k\<in>set ks. pick_correct st k \<longrightarrow> pick_answer st k \<noteq> None"
  shows "score_loop st ks t = Inr (t + sum_list (map (pick_points st) (filter (pick_correct st) ks)))"
  using assms
proof (induction ks arbitrary: t)
  case Nil
  show ?case by simp
next
  case (Cons k ks)
  from Cons.prems obtain p where p: "pick_prop st k = Some p" by auto
  have IH: "\<And>t. score_loop st ks t = Inr (t + sum_list (map (pick_points st) (filter (pick_correct st) ks)))"
    using Cons.IH Cons.prems by simp
  show ?case
  proof (cases "pick_correct st k")
    case True
    with Cons.prems obtain a where a: "pick_answer st k = Some a" by auto
    from True p have "p_resolved p \<and> p_correct_answer_id p = Some (k_answer_id k)"
      by (simp add: pick_correct_def)
    moreover have "pick_points st k = a_points a" using a by (simp add: pick_points_def)
    ultimately show ?thesis using p a True by (simp add: IH)
  next
    case False
    with p have "\<not> (p_resolved p \<and> p_correct_answer_id p = Some (k_answer_id k))"
      by (simp add: pick_correct_def)
    with p False show ?thesis by (auto simp: IH)
  qed
qed

lemma pick_points_nonneg:
  "\<forall>a\<in>set (answers st). 0 \<le> a_points a \<Longrightarrow> 0 \<le> pick_points st k"
  by (auto simp: pick_points_def pick_answer_def get_answer_def find_Some_iff split: option.splits)

text \<open>
  C1 (as amended). When every Pick of the entry has its Prop row and every counting Pick
  its Answer row, \<open>calculate_score\<close> returns the sum of the points of exactly the
  counting Picks (Prop resolved, answer equal to the correct answer): the other Picks add
  nothing. The sum is non-negative when no Answer has negative points.
\<close>

theorem calculate_score_sum:
  assumes "\<forall>k\<in>set (entry_picks st e). pick_prop st k \<noteq> None"
    and "\<forall>k\<in>set (entry_picks st e). pick_correct st k \<longrightarrow> pick_answer st k \<noteq> None"
  shows "calculate_score st e =
           Inr (sum_list (map (pick_points st) (filter (pick_correct st) (entry_picks st e))))
         \<and> ((\<forall>a\<in>set (answers st). 0 \<le> a_points a) \<longrightarrow>
              0 \<le> sum_list (map (pick_points st) (filter (pick_correct st) (entry_picks st e))))"
proof
  show "calculate_score st e =
           Inr (sum_list (map (pick_points st) (filter (pick_correct st) (entry_picks st e))))"
    unfolding calculate_score_def using score_loop_sum [OF assms, of 0] by simp
  show "(\<forall>a\<in>set (answers st). 0 \<le> a_points a) \<longrightarrow>
              0 \<le> sum_list (map (pick_points st) (filter (pick_correct st) (entry_picks st e)))"
    by (auto intro!: sum_list_nonneg pick_points_nonneg)
qed

theorem calculate_score_sum_witness:
  "calculate_score scored_store \<lparr>e_id = 1, e_name = ''Ann''\<rparr> = Inr 3"
proof -
  let ?e = "\<lparr>e_id = 1, e_name = ''Ann''\<rparr>"
  have h1: "\<forall>k\<in>set (entry_picks scored_store ?e). pick_prop scored_store k \<noteq> None"
    by code_simp
  have h2: "\<forall>k\<in>set (entry_picks scored_store ?e).
              pick_correct scored_store k \<longrightarrow> pick_answer scored_store k \<noteq> None"
    by code_simp
  have "sum_list (map (pick_points scored_store)
          (filter (pick_correct scored_store) (entry_picks scored_store ?e))) = 3"
    by code_simp
  with calculate_score_sum [OF h1 h2] show ?thesis by simp
qed

text \<open>
  C1 as stated fails: the add form takes the points with \<open>int()\<close>, so an answer can be
  worth -5, and the score of the sheet that picked it is -5.
\<close>

theorem calculate_score_negative:
  "entries negative_points_store = [\<lparr>e_id = 1, e_name = ''Ann''\<rparr>]
   \<and> calculate_score negative_points_store \<lparr>e_id = 1, e_name = ''Ann''\<rparr> = Inr (- 5)"
  by code_simp

lemma score_loop_absent:
  "k \<in> set ks \<Longrightarrow> pick_prop st k = None \<Longrightarrow> score_loop st ks t = Inl AttributeError"
proof (induction ks arbitrary: t)
  case Nil
  then show ?case by simp
next
  case (Cons j js)
  show ?case
  proof (cases "j = k")
    case True
    with Cons.prems show ?thesis by simp
  next
    case False
    with Cons.prems have "k \<in> set js" by simp
    then have "\<And>t. score_loop st js t = Inl AttributeError"
      using Cons.IH Cons.prems(2) by blast
    then show ?thesis by (simp split: option.splits)
  qed
qed

text \<open>
  C5 (as amended). On an entry with a Pick whose Prop row is absent, \<open>calculate_score\<close>
  raises \<open>AttributeError\<close> (it reads \<open>pick.prop.resolved\<close> of \<open>None\<close>), and
  so does \<open>get_pick_status\<close> on that Pick.
\<close>

theorem absent_prop_raises:
  assumes "k \<in> set (entry_picks st e)" and "pick_prop st k = None"
  shows "calculate_score st e = Inl AttributeError \<and> get_pick_status st k = Inl AttributeError"
  using assms score_loop_absent [of k "entry_picks st e" st 0]
  by (simp add: calculate_score_def get_pick_status_def)

theorem absent_prop_raises_witness:
  "calculate_score dangling_store \<lparr>e_id = 2, e_name = ''Bob''\<rparr> = Inl AttributeError
   \<and> get_pick_status dangling_store \<lparr>k_id = 6, k_entry_id = 2, k_prop_id = 9, k_answer_id = 1\<rparr>
       = Inl AttributeError"
proof -
  let ?k = "\<lparr>k_id = 6, k_entry_id = 2, k_prop_id = 9, k_answer_id = 1\<rparr>"
  let ?e = "\<lparr>e_id = 2, e_name = ''Bob''\<rparr>"
  have h1: "?k \<in> set (entry_picks dangling_store ?e)" by code_simp
  have h2: "pick_prop dangling_store ?k = None" by code_simp
  show ?thesis by (rule absent_prop_raises [OF h1 h2])
qed

text \<open>C5 as stated fails: Bob's score is not computed, and the Pick has no status.\<close>

theorem absent_prop_fails:
  "pick_prop dangling_store \<lparr>k_id = 6, k_entry_id = 2, k_prop_id = 9, k_answer_id = 1\<rparr> = None
   \<and> calculate_score dangling_store \<lparr>e_id = 2, e_name = ''Bob''\<rparr> = Inl AttributeError
   \<and> get_pick_status dangling_store \<lparr>k_id = 6, k_entry_id = 2, k_prop_id = 9, k_answer_id = 1\<rparr>
       = Inl AttributeError"
  by code_simp

section \<open>Settings and submissions\<close>

lemma current_settings_put:
  "current_settings (put_settings s (snd (get_settings st))) = s"
  by (simp add: current_settings_def put_settings_def get_settings_def split: list.splits)

text \<open>
  C7. Whatever the two flags were (and whether the Settings row existed), the
  \<open>start_game\<close> action of an admin leaves \<open>game_started\<close> and
  \<open>submissions_locked\<close> both true, and the \<open>stop_game\<close> action leaves
  \<open>game_started\<close> false and \<open>submissions_locked\<close> as it was.
\<close>

theorem start_stop_game:
  assumes "form_get f ''action'' = Some ''start_game''"
    and "form_get g ''action'' = Some ''stop_game''"
  shows "game_started (current_settings (db (admin_settings True f st)))
         \<and> submissions_locked (current_settings (db (admin_settings True f st)))
         \<and> \<not> game_started (current_settings (db (admin_settings True g st)))
         \<and> submissions_locked (current_settings (db (admin_settings True g st)))
             = submissions_locked (current_settings st)"
proof -
  obtain s st1 where gs: "get_settings st = (s, st1)" by (cases "get_settings st")
  then have st1: "st1 = snd (get_settings st)" and s: "s = current_settings st"
    by (simp_all add: current_settings_def)
  have "db (admin_settings True f st)
          = put_settings (s\<lparr>game_started := True, submissions_locked := True\<rparr>) st1"
    using assms(1) gs by (simp add: admin_settings_def admin_required_def)
  moreover have "db (admin_settings True g st) = put_settings (s\<lparr>game_started := False\<rparr>) st1"
    using assms(2) gs by (simp add: admin_settings_def admin_required_def)
  ultimately show ?thesis
    by (simp add: st1 current_settings_put s)
qed

theorem start_stop_game_witness:
  "game_started (current_settings (db (admin_settings True start_form locked_store)))
   \<and> submissions_locked (current_settings (db (admin_settings True start_form locked_store)))
   \<and> \<not> game_started (current_settings (db (admin_settings True stop_form locked_store)))
   \<and> submissions_locked (current_settings (db (admin_settings True stop_form locked_store)))"
proof -
  have h1: "form_get start_form ''action'' = Some ''start_game''" by code_simp
  have h2: "form_get stop_form ''action'' = Some ''stop_game''" by code_simp
  have h3: "submissions_locked (current_settings locked_store)" by code_simp
  from start_stop_game [OF h1 h2, of locked_store] h3 show ?thesis by simp
qed

text \<open>
  C8. While \<open>submissions_locked\<close> is true, \<open>/prop-sheet\<close> answers every request,
  whatever its method and form, with the redirect to the index page and the flashed
  error, and the store is unchanged: no Entry and no Pick is created.
\<close>

theorem locked_rejects_submission:
  assumes "submissions_locked (current_settings st)"
  shows "resp (prop_sheet method f st) = Redirect ''index''
         \<and> flashes (prop_sheet method f st) = [(''Submissions are now closed!'', ''error'')]
         \<and> db (prop_sheet method f st) = st"
proof -
  from assms obtain s rest where rows: "settings_rows st = s # rest"
    by (cases "settings_rows st")
       (simp_all add: current_settings_def get_settings_def default_settings_def)
  with assms have "get_settings st = (s, st)" "submissions_locked s"
    by (simp_all add: current_settings_def get_settings_def)
  then show ?thesis by (simp add: prop_sheet_def)
qed

theorem locked_rejects_submission_witness:
  "resp (prop_sheet POST sheet_form scored_store) = Redirect ''index''
   \<and> flashes (prop_sheet POST sheet_form scored_store) = [(''Submissions are now closed!'', ''error'')]
   \<and> db (prop_sheet POST sheet_form scored_store) = scored_store"
proof -
  have h: "submissions_locked (current_settings scored_store)" by code_simp
  show ?thesis by (rule locked_rejects_submission [OF h])
qed

section \<open>Ordering of the Props\<close>

lemma or_zero_sql_max:
  "or_zero (sql_max xs) + 1 = (if xs = [] then 1 else 1 + Max (set xs))"
  by (simp add: or_zero_def sql_max_def)

lemma add_answers_append:
  "add_answers pid xs tbl = Inr tbl' \<Longrightarrow> \<exists>new. tbl' = tbl @ new \<and> (\<forall>a\<in>set new. a_prop_id a = pid)"
proof (induction pid xs tbl rule: add_answers.induct)
  case (1 pid tbl)
  then show ?case by simp
next
  case (2 pid i tx points rest tbl)
  show ?case
  proof (cases "strip tx \<noteq> []")
    case False
    with 2 show ?thesis by simp
  next
    case True
    from 2(3) True obtain n where n: "form_points points = Inr n"
      by (simp split: sum.splits)
    let ?row = "\<lparr>a_id = next_id (map a_id tbl), a_prop_id = pid, a_text = strip tx,
                  a_points = n, a_order = int i\<rparr>"
    from 2(3) True n have "add_answers pid rest (tbl @ [?row]) = Inr tbl'" by simp
    from 2(1) [OF True n this] obtain new where
      "tbl' = (tbl @ [?row]) @ new" "\<forall>a\<in>set new. a_prop_id a = pid" by blast
    then have "tbl' = tbl @ (?row # new) \<and> (\<forall>a\<in>set (?row # new). a_prop_id a = pid)" by simp
    then show ?thesis by blast
  qed
qed

text \<open>What a successful add request has done.\<close>

lemma add_prop_success:
  assumes "resp (admin_add_prop True POST f st) = Redirect ''admin_props''"
  shows "\<exists>tbl. strip (form_get_default f ''question'') \<noteq> []
     \<and> add_answers (next_id (map p_id (props st))) (form_answers f) (answers st) = Inr tbl
     \<and> db (admin_add_prop True POST f st)
         = st\<lparr>props := props st @
                [\<lparr>p_id = next_id (map p_id (props st)),
                  p_question = strip (form_get_default f ''question''), p_note = form_note f,
                  p_order = or_zero (sql_max (map p_order (props st))) + 1, p_resolved = False,
                  p_correct_answer_id = None\<rparr>],
               answers := tbl\<rparr>"
  using assms
  by (auto simp: admin_add_prop_def admin_required_def Let_def split: sum.splits if_splits)

text \<open>
  C9. A request to add a Prop that succeeds appends one Prop row, whose order is
  1 + the largest order of the Props there were, or 1 when there were none.
\<close>

theorem add_prop_order:
  assumes "resp (admin_add_prop True POST f st) = Redirect ''admin_props''"
  shows "\<exists>p. props (db (admin_add_prop True POST f st)) = props st @ [p]
             \<and> p_order p = (if props st = [] then 1 else 1 + Max (set (map p_order (props st))))"
proof -
  from add_prop_success [OF assms] obtain tbl where
    "db (admin_add_prop True POST f st)
       = st\<lparr>props := props st @
              [\<lparr>p_id = next_id (map p_id (props st)),
                p_question = strip (form_get_default f ''question''), p_note = form_note f,
                p_order = or_zero (sql_max (map p_order (props st))) + 1, p_resolved = False,
                p_correct_answer_id = None\<rparr>],
             answers := tbl\<rparr>"
    by blast
  then show ?thesis
    using or_zero_sql_max [of "map p_order (props st)"] by simp
qed

theorem add_prop_order_witness:
  "map p_order (props (db (admin_add_prop True POST add_form scored_store))) = [1, 2, 3, 4]"
proof -
  have h: "resp (admin_add_prop True POST add_form scored_store) = Redirect ''admin_props''"
    by code_simp
  have "map p_order (props scored_store) = [1, 2, 3]" by code_simp
  with add_prop_order [OF h] show ?thesis by auto
qed

section \<open>Resolving and unresolving\<close>

lemma find_Some_holds: "find P xs = Some x \<Longrightarrow> P x"
  by (induction xs) (auto split: if_splits)

lemma find_update_prop:
  assumes "\<And>p. p_id (g p) = p_id p"
  shows "find (\<lambda>p. p_id p = i) (update_prop pid g ps)
           = map_option (\<lambda>p. if p_id p = pid then g p else p) (find (\<lambda>p. p_id p = i) ps)"
  by (induction ps) (simp_all add: update_prop_def assms)

text \<open>What \<open>calculate_score\<close> reads of a Prop: whether it is resolved, and to which
  answer when it is.\<close>

lemma score_loop_cong:
  assumes "answers st' = answers st"
    and "\<forall>k\<in>set ks. map_option (\<lambda>p. (p_resolved p, p_resolved p \<and> p_correct_answer_id p = Some (k_answer_id k))) (pick_prop st' k)
                     = map_option (\<lambda>p. (p_resolved p, p_resolved p \<and> p_correct_answer_id p = Some (k_answer_id k))) (pick_prop st k)"
  shows "score_loop st' ks t = score_loop st ks t"
  using assms(2)
proof (induction ks arbitrary: t)
  case Nil
  show ?case by simp
next
  case (Cons k ks)
  then have IH: "\<And>t. score_loop st' ks t = score_loop st ks t" by simp
  have ans: "pick_answer st' k = pick_answer st k"
    by (simp add: pick_answer_def get_answer_def assms(1))
  from Cons.prems show ?case
    by (cases "pick_prop st k"; cases "pick_prop st' k") (auto simp: IH ans split: option.splits)
qed

lemma get_prop_Some_id: "get_prop st i = Some p \<Longrightarrow> p_id p = i"
  by (auto simp: get_prop_def dest: find_Some_holds)

text \<open>What a successful edit request has done, and what a resolve request can do.\<close>

lemma edit_prop_success:
  assumes "get_prop st i = Some p"
    and "resp (admin_edit_prop True i POST f st) = Redirect ''admin_props''"
  shows "\<exists>tbl. add_answers i (form_answers f) (filter (\<lambda>a. a_prop_id a \<noteq> i) (answers st)) = Inr tbl
     \<and> db (admin_edit_prop True i POST f st)
         = st\<lparr>props := update_prop i
                  (\<lambda>q. q\<lparr>p_question := strip (form_get_default f ''question''), p_note := form_note f\<rparr>)
                  (props st),
               answers := tbl\<rparr>"
proof -
  from assms(1) have "p_id p = i" by (rule get_prop_Some_id)
  with assms show ?thesis
    by (auto simp: admin_edit_prop_def admin_required_def Let_def split: sum.splits if_splits)
qed

lemma resolve_prop_cases:
  assumes "get_prop st i = Some p"
  shows "db (admin_resolve_prop True i f st) = st
    \<or> props (db (admin_resolve_prop True i f st))
        = update_prop i (\<lambda>p. p\<lparr>p_correct_answer_id := None, p_resolved := False\<rparr>) (props st)
    \<or> (\<exists>v n. form_get f ''answer_id'' = Some v \<and> v \<noteq> [] \<and> py_int v = Inr n
          \<and> props (db (admin_resolve_prop True i f st))
              = update_prop i (\<lambda>p. p\<lparr>p_correct_answer_id := Some n, p_resolved := True\<rparr>) (props st))"
proof -
  from assms have "p_id p = i" by (rule get_prop_Some_id)
  with assms show ?thesis
    by (auto simp: admin_resolve_prop_def admin_required_def Let_def split: sum.splits if_splits)
qed

lemma resolve_frame:
  "answers (db (admin_resolve_prop a i f st)) = answers st
   \<and> picks (db (admin_resolve_prop a i f st)) = picks st"
  by (simp add: admin_resolve_prop_def admin_required_def Let_def split: option.splits sum.splits)

lemma find_update_prop_other:
  assumes "j \<noteq> i" and "\<And>p. p_id (g p) = p_id p"
  shows "find (\<lambda>p. p_id p = j) (update_prop i g ps) = find (\<lambda>p. p_id p = j) ps"
  unfolding find_update_prop [of g, OF assms(2)]
  using assms(1) by (cases "find (\<lambda>p. p_id p = j) ps") (auto dest: find_Some_holds)

lemma resolve_other_prop:
  assumes "j \<noteq> i"
  shows "get_prop (db (admin_resolve_prop a i f st)) j = get_prop st j"
proof (cases "get_prop st i")
  case None
  then show ?thesis by (simp add: admin_resolve_prop_def admin_required_def)
next
  case (Some p)
  then have "p_id p = i" by (rule get_prop_Some_id)
  with Some assms show ?thesis
    by (simp add: admin_resolve_prop_def admin_required_def Let_def get_prop_def
                  find_update_prop_other split: sum.splits)
qed

lemma resolve_same_prop_exists:
  "(get_prop (db (admin_resolve_prop a i f st)) i = None) = (get_prop st i = None)"
proof (cases "get_prop st i")
  case None
  then show ?thesis by (simp add: admin_resolve_prop_def admin_required_def)
next
  case (Some p)
  then have "p_id p = i" by (rule get_prop_Some_id)
  with Some show ?thesis
    by (auto simp: admin_resolve_prop_def admin_required_def Let_def get_prop_def find_update_prop
             split: sum.splits)
qed

lemma unresolve_same_prop:
  assumes "unresolve_form g" and "get_prop st i = Some p"
  shows "\<exists>p'. get_prop (db (admin_resolve_prop True i g st)) i = Some p' \<and> \<not> p_resolved p'"
proof -
  from assms(2) have "p_id p = i" by (rule get_prop_Some_id)
  with assms show ?thesis
    by (auto simp: unresolve_form_def admin_resolve_prop_def admin_required_def Let_def get_prop_def
                   find_update_prop)
qed

text \<open>
  C3 (as amended). For a Prop P that is not resolved beforehand, a resolve request on P
  (whatever it sends) followed by an unresolve request on P leaves the result of
  \<open>calculate_score\<close> of every entry as it was before the two requests.
\<close>

theorem resolve_unresolve_score:
  assumes "is_unresolved st P"
    and "unresolve_form g"
  shows "calculate_score (db (admin_resolve_prop True P g (db (admin_resolve_prop True P f st)))) e
           = calculate_score st e"
proof -
  let ?s1 = "db (admin_resolve_prop True P f st)"
  let ?s2 = "db (admin_resolve_prop True P g ?s1)"
  have fr: "answers ?s2 = answers st" "picks ?s2 = picks st"
    by (simp_all add: resolve_frame)
  have props: "map_option (\<lambda>p. (p_resolved p, p_resolved p \<and> p_correct_answer_id p = Some (k_answer_id k))) (pick_prop ?s2 k)
       = map_option (\<lambda>p. (p_resolved p, p_resolved p \<and> p_correct_answer_id p = Some (k_answer_id k))) (pick_prop st k)" for k
  proof (cases "k_prop_id k = P")
    case False
    then show ?thesis by (simp add: pick_prop_def resolve_other_prop)
  next
    case True
    show ?thesis
    proof (cases "get_prop st P")
      case None
      then have "get_prop ?s2 P = None" by (simp add: resolve_same_prop_exists)
      with None True show ?thesis by (simp add: pick_prop_def)
    next
      case (Some p)
      then obtain p1 where "get_prop ?s1 P = Some p1"
        using resolve_same_prop_exists [of True P f st] by (cases "get_prop ?s1 P") auto
      from unresolve_same_prop [OF assms(2) this] obtain p2 where
        "get_prop ?s2 P = Some p2" "\<not> p_resolved p2" by blast
      moreover from Some assms(1) have "\<not> p_resolved p" by (simp add: is_unresolved_def)
      ultimately show ?thesis using Some True by (simp add: pick_prop_def)
    qed
  qed
  have "score_loop ?s2 (entry_picks st e) 0 = score_loop st (entry_picks st e) 0"
    by (rule score_loop_cong) (simp_all add: fr props)
  then show ?thesis by (simp add: calculate_score_def entry_picks_def fr)
qed

theorem resolve_unresolve_score_witness:
  "calculate_score (db (admin_resolve_prop True 3 no_answer
                      (db (admin_resolve_prop True 3 (form_of [(''answer_id'', [''5''])]) scored_store))))
     \<lparr>e_id = 1, e_name = ''Ann''\<rparr> = Inr 3"
proof -
  have h1: "is_unresolved scored_store 3" by code_simp
  have h2: "unresolve_form no_answer" by code_simp
  have "calculate_score scored_store \<lparr>e_id = 1, e_name = ''Ann''\<rparr> = Inr 3" by code_simp
  with resolve_unresolve_score [OF h1 h2] show ?thesis by simp
qed

text \<open>
  C3 as stated fails on a Prop that was resolved before: Prop 1 is resolved to answer 1
  and Ann, who picked it, has 3 points; after a resolve and an unresolve of Prop 1 she
  has 0.
\<close>

theorem resolve_unresolve_not_restored:
  "calculate_score scored_store \<lparr>e_id = 1, e_name = ''Ann''\<rparr> = Inr 3
   \<and> unresolve_form no_answer
   \<and> calculate_score (db (admin_resolve_prop True 1 no_answer
                          (db (admin_resolve_prop True 1 resolve_to_1 scored_store))))
        \<lparr>e_id = 1, e_name = ''Ann''\<rparr> = Inr 0"
  by code_simp

section \<open>The standings API\<close>

lemma standings_loop_scored:
  "list_all (\<lambda>e. case calculate_score st e of Inl _ \<Rightarrow> False | Inr _ \<Rightarrow> True) es
   \<Longrightarrow> standings_loop st es = Inr (map (standing_of st) es)"
  by (induction es) (auto simp: standing_of_def split: sum.splits)

lemma standings_loop_raises:
  "\<not> list_all (\<lambda>e. case calculate_score st e of Inl _ \<Rightarrow> False | Inr _ \<Rightarrow> True) es
   \<Longrightarrow> \<exists>err. standings_loop st es = Inl err"
  by (induction es) (auto split: sum.splits)

lemma started_get_settings:
  "game_started (current_settings st) \<Longrightarrow> get_settings st = (current_settings st, st)"
  by (cases "settings_rows st")
     (simp_all add: current_settings_def get_settings_def default_settings_def)

lemma sorted_by_score_desc:
  "sorted_wrt (\<lambda>a b. s_score b \<le> s_score a) (sort_by_score_desc rows)"
proof -
  have "sorted (map (\<lambda>r. - s_score r) (sort_by_score_desc rows))"
    unfolding sort_by_score_desc_def by (rule sorted_sort_key)
  then show ?thesis by (simp add: sorted_map)
qed

text \<open>
  C6 (as amended). \<open>/api/standings\<close> answers 403 with the body
  \<open>{"error": "Game not started"}\<close> exactly when \<open>game_started\<close> is false. When it is
  true and the score of every entry is computed, the answer is the JSON of the standings:
  one \<open>{name, score, id}\<close> record per entry, sorted by score descending, with the
  number of resolved Props and the number of Props. When it is true and
  \<open>calculate_score\<close> raises on some entry, the exception escapes the handler.
\<close>

theorem api_standings_response:
  "(\<not> game_started (current_settings st) \<longrightarrow>
      resp (api_standings st) = Json_error ''Game not started'' 403)
   \<and> (game_started (current_settings st) \<longrightarrow>
      resp (api_standings st) \<noteq> Json_error ''Game not started'' 403)
   \<and> (game_started (current_settings st) \<and> all_scored st \<longrightarrow>
      (\<exists>rows. resp (api_standings st)
                = Json_standings rows (length (filter p_resolved (props st))) (length (props st))
            \<and> sorted_wrt (\<lambda>a b. s_score b \<le> s_score a) rows
            \<and> mset rows = mset (map (standing_of st) (entries st))))
   \<and> (game_started (current_settings st) \<and> \<not> all_scored st \<longrightarrow>
      (\<exists>err. resp (api_standings st) = Raise err))"
proof (cases "game_started (current_settings st)")
  case False
  then show ?thesis
    by (auto simp: api_standings_def current_settings_def split: prod.splits)
next
  case True
  note gs = started_get_settings [OF True]
  show ?thesis
  proof (cases "all_scored st")
    case scored: True
    then have "standings_loop st (entries st) = Inr (map (standing_of st) (entries st))"
      unfolding all_scored_def by (rule standings_loop_scored)
    with True gs have r: "resp (api_standings st)
        = Json_standings (sort_by_score_desc (map (standing_of st) (entries st)))
            (length (filter p_resolved (props st))) (length (props st))"
      by (simp add: api_standings_def)
    have "mset (sort_by_score_desc (map (standing_of st) (entries st)))
            = mset (map (standing_of st) (entries st))"
      by (simp add: sort_by_score_desc_def)
    with r sorted_by_score_desc [of "map (standing_of st) (entries st)"] True scored
    show ?thesis by simp
  next
    case unscored: False
    then obtain err where "standings_loop st (entries st) = Inl err"
      unfolding all_scored_def using standings_loop_raises by blast
    with True gs unscored show ?thesis by (simp add: api_standings_def)
  qed
qed

theorem api_standings_response_witness:
  "resp (api_standings empty_store) = Json_error ''Game not started'' 403
   \<and> resp (api_standings scored_store) \<noteq> Json_error ''Game not started'' 403
   \<and> (\<exists>rows. resp (api_standings scored_store) = Json_standings rows 2 3
          \<and> sorted_wrt (\<lambda>a b. s_score b \<le> s_score a) rows
          \<and> mset rows = mset [\<lparr>s_name = ''Ann'', s_score = 3, s_id = 1\<rparr>,
                               \<lparr>s_name = ''Bob'', s_score = 1, s_id = 2\<rparr>])
   \<and> (\<exists>err. resp (api_standings dangling_store) = Raise err)"
proof -
  have h0: "\<not> game_started (current_settings empty_store)" by code_simp
  have h1: "game_started (current_settings scored_store)" by code_simp
  have h2: "all_scored scored_store" by code_simp
  have h3: "game_started (current_settings dangling_store)" by code_simp
  have h4: "\<not> all_scored dangling_store" by code_simp
  have e: "map (standing_of scored_store) (entries scored_store)
             = [\<lparr>s_name = ''Ann'', s_score = 3, s_id = 1\<rparr>, \<lparr>s_name = ''Bob'', s_score = 1, s_id = 2\<rparr>]"
    by code_simp
  have n: "length (filter p_resolved (props scored_store)) = 2" "length (props scored_store) = 3"
    by code_simp+
  from api_standings_response [of empty_store] h0
  have a: "resp (api_standings empty_store) = Json_error ''Game not started'' 403" by blast
  from api_standings_response [of scored_store] h1 h2
  have b: "resp (api_standings scored_store) \<noteq> Json_error ''Game not started'' 403"
    and c: "\<exists>rows. resp (api_standings scored_store)
                = Json_standings rows (length (filter p_resolved (props scored_store)))
                    (length (props scored_store))
            \<and> sorted_wrt (\<lambda>a b. s_score b \<le> s_score a) rows
            \<and> mset rows = mset (map (standing_of scored_store) (entries scored_store))"
    by blast+
  from api_standings_response [of dangling_store] h3 h4
  have d: "\<exists>err. resp (api_standings dangling_store) = Raise err" by blast
  from a b c d show ?thesis unfolding e n by blast
qed

text \<open>
  C6 as stated fails: the game is started, Ann's pick counts and its Answer row was
  deleted by the edit, so \<open>calculate_score\<close> raises and the request has no JSON answer.
\<close>

theorem api_standings_raises:
  "game_started (current_settings edited_store)
   \<and> resp (api_standings edited_store) = Raise AttributeError"
  by code_simp

section \<open>Editing a Prop\<close>

lemma next_id_greater: "x \<in> set ids \<Longrightarrow> x < next_id ids"
proof -
  assume "x \<in> set ids"
  then have "x \<le> Max (set ids)" "ids \<noteq> []" by auto
  then show ?thesis by (simp add: next_id_def)
qed

lemma add_answers_rows:
  "add_answers pid xs tbl = Inr tbl' \<Longrightarrow>
     \<exists>new. tbl' = tbl @ new
       \<and> (\<forall>a\<in>set new. a_prop_id a = pid \<and> (\<forall>b\<in>set tbl. a_id b < a_id a))
       \<and> map (\<lambda>a. (a_text a, Inr (a_points a), a_order a)) new
           = map (\<lambda>(i, tx, points). (strip tx, form_points points, int i))
               (filter (\<lambda>(i, tx, points). strip tx \<noteq> []) xs)"
proof (induction pid xs tbl rule: add_answers.induct)
  case (1 pid tbl)
  then show ?case by simp
next
  case (2 pid i tx points rest tbl)
  show ?case
  proof (cases "strip tx \<noteq> []")
    case False
    with 2 show ?thesis by simp
  next
    case True
    from 2(3) True obtain n where n: "form_points points = Inr n"
      by (simp split: sum.splits)
    let ?row = "\<lparr>a_id = next_id (map a_id tbl), a_prop_id = pid, a_text = strip tx,
                  a_points = n, a_order = int i\<rparr>"
    from 2(3) True n have "add_answers pid rest (tbl @ [?row]) = Inr tbl'" by simp
    from 2(1) [OF True n this] obtain new where new:
      "tbl' = (tbl @ [?row]) @ new"
      "\<forall>a\<in>set new. a_prop_id a = pid \<and> (\<forall>b\<in>set (tbl @ [?row]). a_id b < a_id a)"
      "map (\<lambda>a. (a_text a, Inr (a_points a), a_order a)) new
         = map (\<lambda>(i, tx, points). (strip tx, form_points points, int i))
             (filter (\<lambda>(i, tx, points). strip tx \<noteq> []) rest)"
      by blast
    have row: "\<forall>b\<in>set tbl. a_id b < a_id ?row"
      by (simp add: next_id_greater)
    have "tbl' = tbl @ (?row # new)" using new(1) by simp
    moreover have "\<forall>a\<in>set (?row # new). a_prop_id a = pid \<and> (\<forall>b\<in>set tbl. a_id b < a_id a)"
      using new(2) row by auto
    moreover have "map (\<lambda>a. (a_text a, Inr (a_points a), a_order a)) (?row # new)
         = map (\<lambda>(i, tx, points). (strip tx, form_points points, int i))
             (filter (\<lambda>(i, tx, points). strip tx \<noteq> []) ((i, tx, points) # rest))"
      using new(3) True n by simp
    ultimately show ?thesis by blast
  qed
qed

lemma find_append_fresh:
  assumes "\<forall>b\<in>set xs. \<not> P b"
  shows "find P (xs @ ys) = find P ys"
  using assms by (induction xs) auto

lemma find_append_old:
  assumes "\<forall>b\<in>set ys. \<not> P b"
  shows "find P (xs @ ys) = find P xs"
  using assms
proof (induction xs)
  case Nil
  then show ?case by (simp add: find_None_iff)
next
  case (Cons x xs)
  then show ?case by simp
qed

lemma find_filter_holds: "find P (filter Q xs) = Some x \<Longrightarrow> Q x"
  by (induction xs) (auto split: if_splits)

text \<open>
  C10 (as amended). An edit request on an existing Prop that succeeds leaves every Pick
  unchanged and, of every Prop, the id, order, resolved flag and \<open>correct_answer_id\<close>.
  It deletes every Answer of the Prop and adds the Answers of the form (one per row with a
  text, with the row's text, points and position), all of them of this Prop. Afterwards the
  \<open>correct_answer_id\<close> of the Prop references an Answer of the Prop exactly when one
  of the new Answers was given that id.
\<close>

theorem edit_prop_frame:
  assumes "get_prop st pid = Some p"
    and "resp (admin_edit_prop True pid POST f st) = Redirect ''admin_props''"
  shows "picks (db (admin_edit_prop True pid POST f st)) = picks st
    \<and> map (\<lambda>q. (p_id q, p_order q, p_resolved q, p_correct_answer_id q))
          (props (db (admin_edit_prop True pid POST f st)))
        = map (\<lambda>q. (p_id q, p_order q, p_resolved q, p_correct_answer_id q)) (props st)
    \<and> (\<exists>new. answers (db (admin_edit_prop True pid POST f st))
                 = filter (\<lambda>a. a_prop_id a \<noteq> pid) (answers st) @ new
          \<and> (\<forall>a\<in>set new. a_prop_id a = pid)
          \<and> map (\<lambda>a. (a_text a, Inr (a_points a), a_order a)) new
               = map (\<lambda>(i, tx, points). (strip tx, form_points points, int i)) (form_rows f)
          \<and> (correct_answer_own (db (admin_edit_prop True pid POST f st)) p
               = (\<exists>a\<in>set new. p_correct_answer_id p = Some (a_id a))))"
proof -
  let ?st' = "db (admin_edit_prop True pid POST f st)"
  let ?kept = "filter (\<lambda>a. a_prop_id a \<noteq> pid) (answers st)"
  from assms(1) have pid: "p_id p = pid" by (rule get_prop_Some_id)
  from edit_prop_success [OF assms] obtain tbl where
    tbl: "add_answers pid (form_answers f) ?kept = Inr tbl"
    and st': "?st' = st\<lparr>props := update_prop pid
        (\<lambda>q. q\<lparr>p_question := strip (form_get_default f ''question''), p_note := form_note f\<rparr>) (props st),
        answers := tbl\<rparr>"
    by blast
  from add_answers_rows [OF tbl] obtain new where new:
    "tbl = ?kept @ new"
    "\<forall>a\<in>set new. a_prop_id a = pid \<and> (\<forall>b\<in>set ?kept. a_id b < a_id a)"
    "map (\<lambda>a. (a_text a, Inr (a_points a), a_order a)) new
       = map (\<lambda>(i, tx, points). (strip tx, form_points points, int i)) (form_rows f)"
    unfolding form_rows_def by blast
  have ans: "answers ?st' = ?kept @ new" by (simp add: st' new(1))
  have own: "correct_answer_own ?st' p = (\<exists>a\<in>set new. p_correct_answer_id p = Some (a_id a))"
  proof (cases "p_correct_answer_id p")
    case None
    then show ?thesis by (simp add: correct_answer_own_def)
  next
    case (Some i)
    show ?thesis
    proof (cases "\<exists>a\<in>set new. a_id a = i")
      case True
      have "\<forall>b\<in>set ?kept. \<not> a_id b = i"
      proof
        fix b assume b: "b \<in> set ?kept"
        from True obtain a where "a \<in> set new" "a_id a = i" by blast
        with new(2) b have "a_id b < i" by blast
        then show "\<not> a_id b = i" by simp
      qed
      then have f1: "find (\<lambda>a. a_id a = i) (?kept @ new) = find (\<lambda>a. a_id a = i) new"
        by (rule find_append_fresh)
      from True obtain a where f2: "find (\<lambda>a. a_id a = i) new = Some a"
        by (cases "find (\<lambda>a. a_id a = i) new") (auto simp: find_None_iff)
      then have "a \<in> set new" by (auto simp: find_Some_iff)
      with new(2) have "a_prop_id a = pid" by blast
      moreover have "get_answer ?st' i = Some a"
        unfolding get_answer_def ans f1 by (rule f2)
      ultimately have "correct_answer_own ?st' p"
        by (simp add: correct_answer_own_def Some pid)
      moreover from True Some have "\<exists>a\<in>set new. p_correct_answer_id p = Some (a_id a)"
        by auto
      ultimately show ?thesis by simp
    next
      case False
      then have "\<forall>b\<in>set new. \<not> a_id b = i" by blast
      then have f1: "find (\<lambda>a. a_id a = i) (?kept @ new) = find (\<lambda>a. a_id a = i) ?kept"
        by (rule find_append_old)
      have g: "get_answer ?st' i = find (\<lambda>a. a_id a = i) ?kept"
        unfolding get_answer_def ans f1 ..
      have "\<not> correct_answer_own ?st' p"
      proof (cases "find (\<lambda>a. a_id a = i) ?kept")
        case None
        with g show ?thesis by (simp add: correct_answer_own_def Some)
      next
        case (Some a)
        from find_filter_holds [OF this] have "a_prop_id a \<noteq> pid" .
        with g Some \<open>p_correct_answer_id p = Some i\<close> show ?thesis
          by (simp add: correct_answer_own_def pid)
      qed
      moreover from False Some have "\<not> (\<exists>a\<in>set new. p_correct_answer_id p = Some (a_id a))"
        by auto
      ultimately show ?thesis by simp
    qed
  qed
  from new(2) have n2: "\<forall>a\<in>set new. a_prop_id a = pid" by blast
  show ?thesis
  proof (intro conjI)
    show "picks ?st' = picks st" by (simp add: st')
    show "map (\<lambda>q. (p_id q, p_order q, p_resolved q, p_correct_answer_id q)) (props ?st')
        = map (\<lambda>q. (p_id q, p_order q, p_resolved q, p_correct_answer_id q)) (props st)"
      by (simp add: st' update_prop_def)
    show "\<exists>new. answers ?st' = ?kept @ new
          \<and> (\<forall>a\<in>set new. a_prop_id a = pid)
          \<and> map (\<lambda>a. (a_text a, Inr (a_points a), a_order a)) new
               = map (\<lambda>(i, tx, points). (strip tx, form_points points, int i)) (form_rows f)
          \<and> (correct_answer_own ?st' p = (\<exists>a\<in>set new. p_correct_answer_id p = Some (a_id a)))"
      using ans n2 new(3) own by (intro exI [of _ new] conjI)
  qed
qed

theorem edit_prop_frame_witness:
  "picks (db (admin_edit_prop True 1 POST add_form scored_store)) = picks scored_store
   \<and> map a_id (answers (db (admin_edit_prop True 1 POST add_form scored_store))) = [3, 4, 5, 6, 7]
   \<and> map (\<lambda>a. (a_text a, a_points a, a_order a))
        (drop 3 (answers (db (admin_edit_prop True 1 POST add_form scored_store))))
       = [(''Over'', 2, 0), (''Under'', 1, 1)]
   \<and> \<not> correct_answer_own (db (admin_edit_prop True 1 POST add_form scored_store))
         \<lparr>p_id = 1, p_question = ''Who wins?'', p_note = None, p_order = 1,
          p_resolved = True, p_correct_answer_id = Some 1\<rparr>"
proof -
  define p where "p = \<lparr>p_id = 1, p_question = ''Who wins?'', p_note = None, p_order = 1,
             p_resolved = True, p_correct_answer_id = Some 1\<rparr>"
  define st' where "st' = db (admin_edit_prop True 1 POST add_form scored_store)"
  define kept where "kept = filter (\<lambda>a. a_prop_id a \<noteq> 1) (answers scored_store)"
  have h1: "get_prop scored_store 1 = Some p" unfolding p_def by code_simp
  have h2: "resp (admin_edit_prop True 1 POST add_form scored_store) = Redirect ''admin_props''"
    by code_simp
  have ids: "map a_id (answers st') = [3, 4, 5, 6, 7]" unfolding st'_def by code_simp
  have kept_ids: "map a_id kept = [3, 4, 5]" unfolding kept_def by code_simp
  have c: "p_correct_answer_id p = Some 1" by (simp add: p_def)
  note r = edit_prop_frame [OF h1 h2, folded st'_def kept_def]
  from r have pk: "picks st' = picks scored_store" by (rule conjunct1)
  from r [THEN conjunct2, THEN conjunct2] obtain new where
    an: "answers st' = kept @ new"
    and rows: "map (\<lambda>a. (a_text a, Inr (a_points a), a_order a)) new
                 = map (\<lambda>(i, tx, points). (strip tx, form_points points, int i)) (form_rows add_form)"
    and own: "correct_answer_own st' p = (\<exists>a\<in>set new. p_correct_answer_id p = Some (a_id a))"
    by (elim exE conjE) (rule that)
  have "map (\<lambda>(i, tx, points). (strip tx, form_points points, int i)) (form_rows add_form)
          = [(''Over'', Inr 2, 0), (''Under'', Inr 1, 1)]"
    by code_simp
  with rows have "map (\<lambda>a. (a_text a, a_points a, a_order a)) new = [(''Over'', 2, 0), (''Under'', 1, 1)]"
    by (auto simp: map_eq_Cons_conv)
  moreover from kept_ids have "length kept = 3" by (metis length_map length_Cons list.size(3) numeral_3_eq_3)
  ultimately have pts: "map (\<lambda>a. (a_text a, a_points a, a_order a)) (drop 3 (answers st'))
          = [(''Over'', 2, 0), (''Under'', 1, 1)]"
    unfolding an by simp
  from ids have "map a_id kept @ map a_id new = [3, 4, 5, 6, 7]" unfolding an by simp
  then have new_ids: "map a_id new = [6, 7]" unfolding kept_ids by simp
  have "\<forall>a\<in>set new. a_id a \<noteq> 1"
  proof
    fix a assume "a \<in> set new"
    then have "a_id a \<in> set (map a_id new)" by simp
    then have "a_id a \<in> {6, 7}" unfolding new_ids by simp
    then show "a_id a \<noteq> 1" by auto
  qed
  then have "\<not> correct_answer_own st' p" unfolding own c by simp
  with pk ids pts show ?thesis unfolding st'_def p_def by simp
qed

text \<open>
  C10 as stated fails in its last part: the Prop is resolved to answer 1, the edit deletes
  the Answers 1 and 2 and the new Answers take the ids 1 and 2 again, so that
  \<open>correct_answer_id\<close> references an Answer of the Prop after the edit.
\<close>

theorem edit_prop_still_referenced:
  "map (\<lambda>q. (p_id q, p_resolved q, p_correct_answer_id q)) (props resolved_store) = [(1, True, Some 1)]
   \<and> map (\<lambda>q. (p_id q, p_resolved q, p_correct_answer_id q))
        (props (db (admin_edit_prop True 1 POST two_answers_form resolved_store))) = [(1, True, Some 1)]
   \<and> map (\<lambda>a. (a_id a, a_prop_id a))
        (answers (db (admin_edit_prop True 1 POST two_answers_form resolved_store))) = [(1, 1), (2, 1)]
   \<and> list_all (correct_answer_own (db (admin_edit_prop True 1 POST two_answers_form resolved_store)))
        (props (db (admin_edit_prop True 1 POST two_answers_form resolved_store)))"
  by code_simp

section \<open>The invariant of resolved Props\<close>

lemma find_append_Some: "find P xs = Some a \<Longrightarrow> find P (xs @ ys) = Some a"
  by (induction xs) (auto split: if_splits)

lemma find_filter_Some: "find P xs = Some a \<Longrightarrow> Q a \<Longrightarrow> find P (filter Q xs) = Some a"
  by (induction xs) (auto split: if_splits)

lemma find_distinct_member:
  "distinct (map p_id ps) \<Longrightarrow> q \<in> set ps \<Longrightarrow> find (\<lambda>p. p_id p = p_id q) ps = Some q"
  by (induction ps) (auto simp: image_iff)

lemma map_p_id_update_prop:
  "(\<And>p. p_id (g p) = p_id p) \<Longrightarrow> map p_id (update_prop i g ps) = map p_id ps"
  by (simp add: update_prop_def)

lemma correct_answer_own_mono:
  assumes "correct_answer_own st p"
    and "\<And>i a. get_answer st i = Some a \<Longrightarrow> get_answer st' i = Some a"
  shows "correct_answer_own st' p"
proof -
  from assms(1) obtain i a where
    "p_correct_answer_id p = Some i" "get_answer st i = Some a" "a_prop_id a = p_id p"
    by (auto simp: correct_answer_own_def split: option.splits)
  with assms(2) [of i a] show ?thesis by (simp add: correct_answer_own_def)
qed

lemma add_prop_inv:
  assumes "distinct (map p_id (props st))" and "resolved_inv st"
  shows "resolved_inv (db (admin_add_prop True POST f st))
         \<and> distinct (map p_id (props (db (admin_add_prop True POST f st))))"
proof (cases "resp (admin_add_prop True POST f st) = Redirect ''admin_props''")
  case False
  then have "db (admin_add_prop True POST f st) = st"
    by (auto simp: admin_add_prop_def admin_required_def Let_def split: sum.splits)
  with assms show ?thesis by simp
next
  case True
  let ?st' = "db (admin_add_prop True POST f st)"
  let ?q = "strip (form_get_default f ''question'')"
  let ?p = "\<lparr>p_id = next_id (map p_id (props st)), p_question = ?q, p_note = form_note f,
             p_order = or_zero (sql_max (map p_order (props st))) + 1, p_resolved = False,
             p_correct_answer_id = None\<rparr>"
  from add_prop_success [OF True] obtain tbl where
    tbl: "add_answers (next_id (map p_id (props st))) (form_answers f) (answers st) = Inr tbl"
    and st': "?st' = st\<lparr>props := props st @ [?p], answers := tbl\<rparr>"
    by blast
  from add_answers_append [OF tbl] obtain new where new: "tbl = answers st @ new" by blast
  have keep: "get_answer ?st' i = Some a" if "get_answer st i = Some a" for i a
    using that by (simp add: get_answer_def st' new find_append_Some)
  have fresh: "next_id (map p_id (props st)) \<notin> set (map p_id (props st))"
    using next_id_greater [of "next_id (map p_id (props st))" "map p_id (props st)"] by auto
  have "resolved_inv ?st'"
    unfolding resolved_inv_def list_all_iff
  proof (intro ballI impI)
    fix p assume p: "p \<in> set (props ?st')" and r: "p_resolved p"
    from p r have "p \<in> set (props st)" by (auto simp: st')
    with assms(2) r have "correct_answer_own st p"
      by (simp add: resolved_inv_def list_all_iff)
    then show "correct_answer_own ?st' p" using keep by (rule correct_answer_own_mono)
  qed
  moreover have "distinct (map p_id (props ?st'))"
    using assms(1) fresh by (simp add: st')
  ultimately show ?thesis by simp
qed

lemma correct_answer_own_answers:
  assumes "answers st' = answers st"
  shows "correct_answer_own st' p = correct_answer_own st p"
proof -
  have "get_answer st' = get_answer st" by (simp add: fun_eq_iff get_answer_def assms)
  then show ?thesis
    by (cases "p_correct_answer_id p") (simp_all add: correct_answer_own_def)
qed

lemma resolve_prop_inv:
  assumes "distinct (map p_id (props st))" and "resolved_inv st"
    and "op_allowed st (Resolve_prop i f)"
  shows "resolved_inv (db (admin_resolve_prop True i f st))
         \<and> distinct (map p_id (props (db (admin_resolve_prop True i f st))))"
proof (cases "get_prop st i")
  case None
  then have "db (admin_resolve_prop True i f st) = st"
    by (simp add: admin_resolve_prop_def admin_required_def)
  with assms show ?thesis by simp
next
  case (Some p)
  let ?st' = "db (admin_resolve_prop True i f st)"
  from Some have pid: "p_id p = i" by (rule get_prop_Some_id)
  have ans: "answers ?st' = answers st" by (simp add: resolve_frame)
  have own: "correct_answer_own ?st' q = correct_answer_own st q" for q
    using ans by (rule correct_answer_own_answers)
  have cases3: "?st' = st
    \<or> props ?st' = update_prop i (\<lambda>p. p\<lparr>p_correct_answer_id := None, p_resolved := False\<rparr>) (props st)
    \<or> (\<exists>n a. props ?st' = update_prop i (\<lambda>p. p\<lparr>p_correct_answer_id := Some n, p_resolved := True\<rparr>) (props st)
          \<and> get_answer st n = Some a \<and> a_prop_id a = i)"
    using resolve_prop_cases [OF Some, of f]
  proof (elim disjE exE conjE)
    fix v n
    assume v: "form_get f ''answer_id'' = Some v" "v \<noteq> []" "py_int v = Inr n"
      and upd: "props ?st' = update_prop i (\<lambda>p. p\<lparr>p_correct_answer_id := Some n, p_resolved := True\<rparr>) (props st)"
    from assms(3) Some v pid obtain a where "get_answer st n = Some a" "a_prop_id a = i"
      by (cases "get_answer st n") auto
    with upd show ?thesis by blast
  qed simp_all
  then consider (same) "?st' = st"
    | (unres) "props ?st' = update_prop i (\<lambda>p. p\<lparr>p_correct_answer_id := None, p_resolved := False\<rparr>) (props st)"
    | (res) n a where
        "props ?st' = update_prop i (\<lambda>p. p\<lparr>p_correct_answer_id := Some n, p_resolved := True\<rparr>) (props st)"
        "get_answer st n = Some a" "a_prop_id a = i"
    by blast
  then show ?thesis
  proof cases
    case same
    with assms show ?thesis by simp
  next
    case unres
    have "resolved_inv ?st'"
      unfolding resolved_inv_def list_all_iff
    proof (intro ballI impI)
      fix q assume q: "q \<in> set (props ?st')" and r: "p_resolved q"
      from q r unres have "q \<in> set (props st)"
        by (auto simp: update_prop_def split: if_splits)
      with assms(2) r have "correct_answer_own st q"
        by (simp add: resolved_inv_def list_all_iff)
      then show "correct_answer_own ?st' q" by (simp add: own)
    qed
    moreover have "distinct (map p_id (props ?st'))"
      using assms(1) by (simp add: unres map_p_id_update_prop)
    ultimately show ?thesis by simp
  next
    case res
    have "resolved_inv ?st'"
      unfolding resolved_inv_def list_all_iff
    proof (intro ballI impI)
      fix q assume q: "q \<in> set (props ?st')" and r: "p_resolved q"
      from q res(1) obtain q0 where q0: "q0 \<in> set (props st)"
        "q = (if p_id q0 = i then q0\<lparr>p_correct_answer_id := Some n, p_resolved := True\<rparr> else q0)"
        by (auto simp: update_prop_def)
      show "correct_answer_own ?st' q"
      proof (cases "p_id q0 = i")
        case True
        with q0(2) res(2,3) have "correct_answer_own st q"
          by (simp add: correct_answer_own_def)
        then show ?thesis by (simp add: own)
      next
        case False
        with q0 r assms(2) have "correct_answer_own st q"
          by (simp add: resolved_inv_def list_all_iff)
        then show ?thesis by (simp add: own)
      qed
    qed
    moreover have "distinct (map p_id (props ?st'))"
      using assms(1) by (simp add: res(1) map_p_id_update_prop)
    ultimately show ?thesis by simp
  qed
qed

lemma edit_prop_inv:
  assumes "distinct (map p_id (props st))" and "resolved_inv st"
    and "op_allowed st (Edit_prop i f)"
  shows "resolved_inv (db (admin_edit_prop True i POST f st))
         \<and> distinct (map p_id (props (db (admin_edit_prop True i POST f st))))"
proof (cases "resp (admin_edit_prop True i POST f st) = Redirect ''admin_props''")
  case False
  then have "db (admin_edit_prop True i POST f st) = st"
    by (auto simp: admin_edit_prop_def admin_required_def Let_def split: option.splits sum.splits)
  with assms show ?thesis by simp
next
  case True
  let ?st' = "db (admin_edit_prop True i POST f st)"
  let ?kept = "filter (\<lambda>a. a_prop_id a \<noteq> i) (answers st)"
  let ?g = "\<lambda>q. q\<lparr>p_question := strip (form_get_default f ''question''), p_note := form_note f\<rparr>"
  from True obtain p where p: "get_prop st i = Some p"
    by (cases "get_prop st i") (auto simp: admin_edit_prop_def admin_required_def)
  then have pid: "p_id p = i" by (rule get_prop_Some_id)
  from p assms(3) have unres: "\<not> p_resolved p" by simp
  from edit_prop_success [OF p True] obtain tbl where
    tbl: "add_answers i (form_answers f) ?kept = Inr tbl"
    and st': "?st' = st\<lparr>props := update_prop i ?g (props st), answers := tbl\<rparr>"
    by blast
  from add_answers_append [OF tbl] obtain new where new: "tbl = ?kept @ new" by blast
  have "resolved_inv ?st'"
    unfolding resolved_inv_def list_all_iff
  proof (intro ballI impI)
    fix q assume q: "q \<in> set (props ?st')" and r: "p_resolved q"
    from q obtain q0 where q0: "q0 \<in> set (props st)" "q = (if p_id q0 = i then ?g q0 else q0)"
      by (auto simp: st' update_prop_def)
    have other: "p_id q0 \<noteq> i"
    proof
      assume "p_id q0 = i"
      with find_distinct_member [OF assms(1) q0(1)] p have "q0 = p" by (simp add: get_prop_def)
      with q0(2) r unres show False by (simp split: if_splits)
    qed
    with q0 have qq: "q = q0" by simp
    with q0(1) r assms(2) have "correct_answer_own st q"
      by (simp add: resolved_inv_def list_all_iff)
    then obtain j a where ja: "p_correct_answer_id q = Some j" "get_answer st j = Some a"
      "a_prop_id a = p_id q"
      by (auto simp: correct_answer_own_def split: option.splits)
    from ja(3) other qq have "a_prop_id a \<noteq> i" by simp
    with ja(2) have "find (\<lambda>a. a_id a = j) ?kept = Some a"
      unfolding get_answer_def by (intro find_filter_Some)
    then have "get_answer ?st' j = Some a"
      by (simp add: get_answer_def st' new find_append_Some)
    with ja show "correct_answer_own ?st' q" by (simp add: correct_answer_own_def)
  qed
  moreover have "distinct (map p_id (props ?st'))"
    using assms(1) by (simp add: st' map_p_id_update_prop)
  ultimately show ?thesis by simp
qed

lemma apply_op_inv:
  assumes "distinct (map p_id (props st))" and "resolved_inv st" and "op_allowed st x"
  shows "resolved_inv (apply_op x st) \<and> distinct (map p_id (props (apply_op x st)))"
proof (cases x)
  case (Add_prop f)
  with add_prop_inv [OF assms(1,2)] show ?thesis by simp
next
  case (Edit_prop i f)
  with edit_prop_inv [OF assms(1,2)] assms(3) show ?thesis by simp
next
  case (Resolve_prop i f)
  with resolve_prop_inv [OF assms(1,2)] assms(3) show ?thesis by simp
qed

text \<open>
  C2 (as amended). From a store whose Prop ids are distinct and in which every resolved
  Prop's \<open>correct_answer_id\<close> references one of its own Answers, every sequence of add,
  edit and resolve requests in which each resolve names an Answer of the Prop it resolves
  (or unresolves it) and each edit is on a Prop that is not resolved leads to a store with
  the same two properties.
\<close>

theorem resolved_inv_preserved:
  assumes "distinct (map p_id (props st))" and "resolved_inv st"
    and "run_ops xs st = Some st'"
  shows "resolved_inv st' \<and> distinct (map p_id (props st'))"
  using assms
proof (induction xs arbitrary: st)
  case Nil
  then show ?case by simp
next
  case (Cons x xs)
  from Cons.prems(3) have ok: "op_allowed st x" and rest: "run_ops xs (apply_op x st) = Some st'"
    by (simp_all split: if_splits)
  from apply_op_inv [OF Cons.prems(1,2) ok]
  have "resolved_inv (apply_op x st)" "distinct (map p_id (props (apply_op x st)))" by simp_all
  from Cons.IH [OF this(2) this(1) rest] show ?case .
qed

theorem resolved_inv_preserved_witness:
  "run_ops allowed_ops empty_store \<noteq> None
   \<and> map (\<lambda>q. (p_id q, p_resolved q, p_correct_answer_id q))
        (props (the (run_ops allowed_ops empty_store))) = [(1, True, Some 1), (2, True, Some 3)]
   \<and> map (\<lambda>a. (a_id a, a_prop_id a)) (answers (the (run_ops allowed_ops empty_store)))
        = [(1, 1), (2, 1), (3, 2), (4, 2)]
   \<and> resolved_inv (the (run_ops allowed_ops empty_store))
   \<and> distinct (map p_id (props (the (run_ops allowed_ops empty_store))))"
proof -
  have h1: "distinct (map p_id (props empty_store))" by code_simp
  have h2: "resolved_inv empty_store" by code_simp
  have ran: "run_ops allowed_ops empty_store \<noteq> None" by code_simp
  then obtain st' where h3: "run_ops allowed_ops empty_store = Some st'" by blast
  have final: "map (\<lambda>q. (p_id q, p_resolved q, p_correct_answer_id q))
        (props (the (run_ops allowed_ops empty_store))) = [(1, True, Some 1), (2, True, Some 3)]"
    "map (\<lambda>a. (a_id a, a_prop_id a)) (answers (the (run_ops allowed_ops empty_store)))
        = [(1, 1), (2, 1), (3, 2), (4, 2)]"
    by code_simp+
  from resolved_inv_preserved [OF h1 h2 h3] ran final show ?thesis by (simp add: h3)
qed

text \<open>
  C2 as stated fails: the resolve request stores whatever integer the form sends. The
  Prop is resolved with \<open>correct_answer_id = 7\<close> and no Answer has that id.
\<close>

theorem resolve_unchecked_answer:
  "map (\<lambda>q. (p_id q, p_resolved q, p_correct_answer_id q)) (props unchecked_store)
     = [(1, True, Some 7)]
   \<and> map (\<lambda>a. (a_id a, a_prop_id a)) (answers unchecked_store) = [(1, 1), (2, 1)]
   \<and> \<not> resolved_inv unchecked_store"
  by code_simp

section \<open>Moving a Prop\<close>

lemma move_keeps_rows:
  "map p_id (props (db (admin_move_prop a i d st))) = map p_id (props st)
   \<and> length (props (db (admin_move_prop a i d st))) = length (props st)"
  by (simp add: admin_move_prop_def admin_required_def commit_move_def swap_orders_def
                update_prop_def Let_def split: option.splits)

lemma move_first_up:
  "current_index (sorted_props st) i = Some 0 \<Longrightarrow> db (admin_move_prop a i ''up'' st) = st"
  by (simp add: admin_move_prop_def admin_required_def Let_def split: option.splits)

lemma move_last_down:
  "current_index (sorted_props st) i = Some (length (sorted_props st) - 1)
   \<Longrightarrow> db (admin_move_prop a i ''down'' st) = st"
  by (simp add: admin_move_prop_def admin_required_def Let_def split: option.splits)

text \<open>
  C4, where the code departs from it. Prop 4 stands at position 3 of the listing
  (positions from 0), between Prop 3 and Prop 5. Moving it up exchanges its order with
  Prop 3's; both are 1, so its order becomes 0, equal to Prop 1's, and the listing puts it
  at position 1: it has passed Prop 3 and Prop 2, which both move down by one.
\<close>

theorem move_up_passes_two:
  "map (\<lambda>p. (p_id p, p_order p)) (sorted_props tied_store)
     = [(1, 0), (2, 1), (3, 1), (4, 1), (5, 5)]
   \<and> map (\<lambda>p. (p_id p, p_order p)) (sorted_props (db (admin_move_prop True 4 ''up'' tied_store)))
     = [(1, 0), (4, 0), (2, 1), (3, 1), (5, 5)]"
  by code_simp

end
